theory Spec2Isabelle
  imports Complex_Main "HOL-Library.Sublist"
begin

section \<open>JavaScript strings\<close>

text \<open>
  A JavaScript string is a sequence of UTF-16 code units, and \<open>s.length\<close> counts them.
  The worker receives an ASCII pathname (the URL parser percent-encodes everything
  else), but the texts it decodes may hold any code unit, so every string of the
  model is a list of code units. \<open>js\<close> turns an ASCII literal into such a list.
\<close>

type_synonym jsstring = "nat list"

definition js :: "string \<Rightarrow> jsstring" where
  "js s = map of_char s"

abbreviation ch :: "char \<Rightarrow> nat" where
  "ch c \<equiv> of_char c"

text \<open>
  \<open>toLowerCase\<close> and \<open>toUpperCase\<close> on ASCII letters. The worker applies them to
  path segments (ASCII) and to strings already reduced to an ASCII alphabet.
\<close>

definition toLowerCase :: "jsstring \<Rightarrow> jsstring" where
  "toLowerCase s = map (\<lambda>c. if ch CHR ''A'' \<le> c \<and> c \<le> ch CHR ''Z'' then c + 32 else c) s"

definition toUpperCase :: "jsstring \<Rightarrow> jsstring" where
  "toUpperCase s = map (\<lambda>c. if ch CHR ''a'' \<le> c \<and> c \<le> ch CHR ''z'' then c - 32 else c) s"

definition startsWith :: "jsstring \<Rightarrow> jsstring \<Rightarrow> bool" where
  "startsWith s p = (take (length p) s = p)"

definition is_digit :: "nat \<Rightarrow> bool" where
  "is_digit c = (ch CHR ''0'' \<le> c \<and> c \<le> ch CHR ''9'')"

definition is_upper :: "nat \<Rightarrow> bool" where
  "is_upper c = (ch CHR ''A'' \<le> c \<and> c \<le> ch CHR ''Z'')"

definition is_lower :: "nat \<Rightarrow> bool" where
  "is_lower c = (ch CHR ''a'' \<le> c \<and> c \<le> ch CHR ''z'')"

text \<open>The value of a hexadecimal digit, \<open>None\<close> for any other code unit.\<close>

definition hex_val :: "nat \<Rightarrow> nat option" where
  "hex_val c =
     (if is_digit c then Some (c - ch CHR ''0'')
      else if ch CHR ''a'' \<le> c \<and> c \<le> ch CHR ''f'' then Some (c - ch CHR ''a'' + 10)
      else if ch CHR ''A'' \<le> c \<and> c \<le> ch CHR ''F'' then Some (c - ch CHR ''A'' + 10)
      else None)"

text \<open>A code point as UTF-16: one code unit, or a surrogate pair above U+FFFF.\<close>

definition utf16_encode :: "nat \<Rightarrow> jsstring" where
  "utf16_encode cp =
     (if cp < 65536 then [cp]
      else [55296 + (cp - 65536) div 1024, 56320 + (cp - 65536) mod 1024])"

section \<open>JSON values and \<open>JSON.parse\<close>\<close>

text \<open>
  The values \<open>JSON.parse\<close> returns. A number carries the exact value of its literal
  (JavaScript rounds it to the nearest double, which is not modelled); an object is
  the list of its properties in the order of their first occurrence, a later
  duplicate key replacing the value of the earlier one.
\<close>

datatype jvalue =
    JNull
  | JBool bool
  | JNum rat
  | JStr jsstring
  | JArr "jvalue list"
  | JObj "(jsstring \<times> jvalue) list"

datatype token =
    TLBrace | TRBrace | TLBracket | TRBracket | TColon | TComma
  | TString jsstring | TNumber rat | TTrue | TFalse | TNull

subsection \<open>Tokens\<close>

text \<open>
  The body of a string literal, after its opening quote: the decoded code units and
  the input after the closing quote. A control character, an unknown escape or a
  missing closing quote is a syntax error.
\<close>

definition hex4 :: "nat \<Rightarrow> nat \<Rightarrow> nat \<Rightarrow> nat \<Rightarrow> nat option" where
  "hex4 a b c d =
     (case (hex_val a, hex_val b, hex_val c, hex_val d) of
        (Some x, Some y, Some z, Some w) \<Rightarrow> Some (((x * 16 + y) * 16 + z) * 16 + w)
      | _ \<Rightarrow> None)"

definition simple_escape :: "nat \<Rightarrow> nat option" where
  "simple_escape e =
     (if e = ch CHR 0x22 then Some (ch CHR 0x22)
      else if e = ch CHR 0x5C then Some (ch CHR 0x5C)
      else if e = ch CHR ''/'' then Some (ch CHR ''/'')
      else if e = ch CHR ''b'' then Some 8
      else if e = ch CHR ''f'' then Some 12
      else if e = ch CHR ''n'' then Some 10
      else if e = ch CHR ''r'' then Some 13
      else if e = ch CHR ''t'' then Some 9
      else None)"

fun lex_string :: "jsstring \<Rightarrow> (jsstring \<times> jsstring) option" where
  "lex_string [] = None"
| "lex_string (c # cs) =
     (if c = ch CHR 0x22 then Some ([], cs)
      else if c = ch CHR 0x5C then
        (case cs of
           [] \<Rightarrow> None
         | e # cs' \<Rightarrow>
             if e = ch CHR ''u'' then
               (case cs' of
                  h1 # h2 # h3 # h4 # cs'' \<Rightarrow>
                    (case hex4 h1 h2 h3 h4 of
                       None \<Rightarrow> None
                     | Some u \<Rightarrow> map_option (\<lambda>(s, r). (u # s, r)) (lex_string cs''))
                | _ \<Rightarrow> None)
             else
               (case simple_escape e of
                  None \<Rightarrow> None
                | Some u \<Rightarrow> map_option (\<lambda>(s, r). (u # s, r)) (lex_string cs')))
      else if c < 32 then None
      else map_option (\<lambda>(s, r). (c # s, r)) (lex_string cs))"

text \<open>
  A number literal: an optional minus sign, an integer part without a leading zero,
  an optional fraction and an optional exponent. The result is its exact value and
  the input after it.
\<close>

definition digits_val :: "jsstring \<Rightarrow> nat" where
  "digits_val ds = foldl (\<lambda>a c. 10 * a + (c - ch CHR ''0'')) 0 ds"

definition pow10 :: "int \<Rightarrow> rat" where
  "pow10 e = (if 0 \<le> e then 10 ^ nat e else 1 / 10 ^ nat (- e))"

definition lex_sign :: "jsstring \<Rightarrow> bool \<times> jsstring" where
  "lex_sign s =
     (case s of
        [] \<Rightarrow> (False, s)
      | c # r \<Rightarrow> if c = ch CHR ''-'' then (True, r) else (False, s))"

definition lex_fraction :: "jsstring \<Rightarrow> (jsstring \<times> jsstring) option" where
  "lex_fraction s =
     (case s of
        [] \<Rightarrow> Some ([], s)
      | c # r \<Rightarrow>
          if c = ch CHR ''.'' then
            (if takeWhile is_digit r = [] then None
             else Some (takeWhile is_digit r, dropWhile is_digit r))
          else Some ([], s))"

definition lex_exponent :: "jsstring \<Rightarrow> (int \<times> jsstring) option" where
  "lex_exponent s =
     (case s of
        [] \<Rightarrow> Some (0, s)
      | c # r \<Rightarrow>
          if c = ch CHR ''e'' \<or> c = ch CHR ''E'' then
            (let (neg, r') =
                   (case r of
                      [] \<Rightarrow> (False, r)
                    | d # r2 \<Rightarrow>
                        if d = ch CHR ''-'' then (True, r2)
                        else if d = ch CHR ''+'' then (False, r2)
                        else (False, r))
             in if takeWhile is_digit r' = [] then None
                else Some ((if neg then - 1 else 1) * int (digits_val (takeWhile is_digit r')),
                           dropWhile is_digit r'))
          else Some (0, s))"

definition lex_number :: "jsstring \<Rightarrow> (rat \<times> jsstring) option" where
  "lex_number s =
     (let (neg, s1) = lex_sign s;
          ip = takeWhile is_digit s1;
          s2 = dropWhile is_digit s1
      in if ip = [] \<or> (1 < length ip \<and> hd ip = ch CHR ''0'') then None
         else
           (case lex_fraction s2 of
              None \<Rightarrow> None
            | Some (fp, s3) \<Rightarrow>
                (case lex_exponent s3 of
                   None \<Rightarrow> None
                 | Some (e, s4) \<Rightarrow>
                     Some ((if neg then - 1 else 1) * of_nat (digits_val (ip @ fp))
                             * pow10 (e - int (length fp)),
                           s4))))"

lemma lex_string_shorter:
  "lex_string s = Some (t, r) \<Longrightarrow> length r < length s"
proof (induction s arbitrary: t r rule: lex_string.induct)
  case 1
  then show ?case by simp
next
  case (2 c cs)
  then show ?case
    by (fastforce split: if_splits list.splits option.splits)
qed

lemma lex_fraction_shorter:
  "lex_fraction s = Some (t, r) \<Longrightarrow> length r \<le> length s"
  by (auto simp: lex_fraction_def split: list.splits if_splits
      intro: le_trans [OF length_dropWhile_le])

lemma lex_exponent_shorter:
  "lex_exponent s = Some (e, r) \<Longrightarrow> length r \<le> length s"
  by (auto simp: lex_exponent_def Let_def split: list.splits if_splits
      intro: le_trans [OF length_dropWhile_le])

lemma dropWhile_shorter:
  "takeWhile P xs \<noteq> [] \<Longrightarrow> length (dropWhile P xs) < length xs"
  by (cases xs) (auto simp: less_Suc_eq_le length_dropWhile_le split: if_splits)

lemma lex_sign_shorter:
  "lex_sign s = (b, r) \<Longrightarrow> length r \<le> length s"
  by (auto simp: lex_sign_def split: list.splits if_splits)

lemma lex_number_shorter:
  assumes "lex_number s = Some (v, r)"
  shows "length r < length s"
proof -
  obtain neg s1 where s1: "lex_sign s = (neg, s1)"
    by (cases "lex_sign s")
  from assms s1 obtain fp s3 e where
    ip: "takeWhile is_digit s1 \<noteq> []" and
    fr: "lex_fraction (dropWhile is_digit s1) = Some (fp, s3)" and
    ex: "lex_exponent s3 = Some (e, r)"
    by (auto simp: lex_number_def Let_def split: if_splits option.splits)
  have "length r \<le> length s3"
    using ex by (rule lex_exponent_shorter)
  also have "\<dots> \<le> length (dropWhile is_digit s1)"
    using fr by (rule lex_fraction_shorter)
  also have "\<dots> < length s1"
    using ip by (rule dropWhile_shorter)
  also have "\<dots> \<le> length s"
    using s1 by (rule lex_sign_shorter)
  finally show ?thesis .
qed

text \<open>
  The token list of a text; \<open>None\<close> when some character starts no token. White
  space between tokens is tab, line feed, carriage return and space.
\<close>

definition is_json_space :: "nat \<Rightarrow> bool" where
  "is_json_space c = (c = 9 \<or> c = 10 \<or> c = 13 \<or> c = 32)"

function json_lex :: "jsstring \<Rightarrow> token list option" where
  "json_lex [] = Some []"
| "json_lex (c # cs) =
     (if is_json_space c then json_lex cs
      else if c = ch CHR ''{'' then map_option ((#) TLBrace) (json_lex cs)
      else if c = ch CHR ''}'' then map_option ((#) TRBrace) (json_lex cs)
      else if c = ch CHR ''['' then map_option ((#) TLBracket) (json_lex cs)
      else if c = ch CHR '']'' then map_option ((#) TRBracket) (json_lex cs)
      else if c = ch CHR '':'' then map_option ((#) TColon) (json_lex cs)
      else if c = ch CHR '','' then map_option ((#) TComma) (json_lex cs)
      else if c = ch CHR 0x22 then
        (case lex_string cs of
           None \<Rightarrow> None
         | Some (s, r) \<Rightarrow> map_option ((#) (TString s)) (json_lex r))
      else if c = ch CHR ''-'' \<or> is_digit c then
        (case lex_number (c # cs) of
           None \<Rightarrow> None
         | Some (v, r) \<Rightarrow> map_option ((#) (TNumber v)) (json_lex r))
      else if startsWith (c # cs) (js ''true'') then
        map_option ((#) TTrue) (json_lex (drop 4 (c # cs)))
      else if startsWith (c # cs) (js ''false'') then
        map_option ((#) TFalse) (json_lex (drop 5 (c # cs)))
      else if startsWith (c # cs) (js ''null'') then
        map_option ((#) TNull) (json_lex (drop 4 (c # cs)))
      else None)"
  by pat_completeness auto
termination
  by (relation "measure length")
     (auto dest: lex_string_shorter lex_number_shorter)

subsection \<open>Values\<close>

text \<open>
  The grammar of values over the tokens, as a machine with a stack of open arrays
  and objects. \<open>FKey k\<close> lies on top of its object while the value of \<open>k\<close> is read.
\<close>

datatype frame = FArray "jvalue list" | FObject "(jsstring \<times> jvalue) list" | FKey jsstring

datatype pstate =
    PValue        \<comment> \<open>a value must follow\<close>
  | PValueOrEnd   \<comment> \<open>after \<open>[\<close>: a value or \<open>]\<close>\<close>
  | PKeyOrEnd     \<comment> \<open>after \<open>{\<close>: a key or \<open>}\<close>\<close>
  | PKey          \<comment> \<open>after a comma in an object: a key\<close>
  | PColon        \<comment> \<open>after a key: the colon\<close>
  | PAfter        \<comment> \<open>after a value inside an array or object: a comma or the end\<close>
  | PDone jvalue    \<comment> \<open>the whole value has been read\<close>

definition obj_put :: "jsstring \<Rightarrow> jvalue \<Rightarrow> (jsstring \<times> jvalue) list \<Rightarrow> (jsstring \<times> jvalue) list" where
  "obj_put k v kvs =
     (if k \<in> fst ` set kvs then map (\<lambda>(k', v'). if k' = k then (k', v) else (k', v')) kvs
      else kvs @ [(k, v)])"

fun push_value :: "jvalue \<Rightarrow> frame list \<Rightarrow> (pstate \<times> frame list) option" where
  "push_value v [] = Some (PDone v, [])"
| "push_value v (FArray vs # st) = Some (PAfter, FArray (vs @ [v]) # st)"
| "push_value v (FKey k # FObject kvs # st) = Some (PAfter, FObject (obj_put k v kvs) # st)"
| "push_value v _ = None"

fun start_value :: "token \<Rightarrow> frame list \<Rightarrow> (pstate \<times> frame list) option" where
  "start_value TLBrace st = Some (PKeyOrEnd, FObject [] # st)"
| "start_value TLBracket st = Some (PValueOrEnd, FArray [] # st)"
| "start_value (TString s) st = push_value (JStr s) st"
| "start_value (TNumber n) st = push_value (JNum n) st"
| "start_value TTrue st = push_value (JBool True) st"
| "start_value TFalse st = push_value (JBool False) st"
| "start_value TNull st = push_value JNull st"
| "start_value _ st = None"

fun start_key :: "token \<Rightarrow> frame list \<Rightarrow> (pstate \<times> frame list) option" where
  "start_key (TString k) st = Some (PColon, FKey k # st)"
| "start_key _ st = None"

fun parse_step :: "pstate \<times> frame list \<Rightarrow> token \<Rightarrow> (pstate \<times> frame list) option" where
  "parse_step (PValue, st) t = start_value t st"
| "parse_step (PValueOrEnd, FArray vs # st) TRBracket = push_value (JArr vs) st"
| "parse_step (PValueOrEnd, st) t = start_value t st"
| "parse_step (PKeyOrEnd, FObject kvs # st) TRBrace = push_value (JObj kvs) st"
| "parse_step (PKeyOrEnd, st) t = start_key t st"
| "parse_step (PKey, st) t = start_key t st"
| "parse_step (PColon, st) TColon = Some (PValue, st)"
| "parse_step (PColon, st) t = None"
| "parse_step (PAfter, FArray vs # st) TComma = Some (PValue, FArray vs # st)"
| "parse_step (PAfter, FArray vs # st) TRBracket = push_value (JArr vs) st"
| "parse_step (PAfter, FObject kvs # st) TComma = Some (PKey, FObject kvs # st)"
| "parse_step (PAfter, FObject kvs # st) TRBrace = push_value (JObj kvs) st"
| "parse_step (PAfter, st) t = None"
| "parse_step (PDone v, st) t = None"

fun parse_tokens :: "pstate \<times> frame list \<Rightarrow> token list \<Rightarrow> (pstate \<times> frame list) option" where
  "parse_tokens c [] = Some c"
| "parse_tokens c (t # ts) =
     (case parse_step c t of None \<Rightarrow> None | Some c' \<Rightarrow> parse_tokens c' ts)"

text \<open>
  \<open>JSON.parse\<close>: the value of a text, \<open>None\<close> where JavaScript throws a SyntaxError.
\<close>

definition JSON_parse :: "jsstring \<Rightarrow> jvalue option" where
  "JSON_parse text =
     (case json_lex text of
        None \<Rightarrow> None
      | Some ts \<Rightarrow>
          (case parse_tokens (PValue, []) ts of
             Some (PDone v, []) \<Rightarrow> Some v
           | _ \<Rightarrow> None))"

section \<open>\<open>decodeURIComponent\<close>\<close>

text \<open>
  ECMAScript's \<open>Decode\<close> with an empty set of reserved characters. An escape is a
  percent sign and two hexadecimal digits. An escaped octet below 128 is the code
  unit itself; any other octet must start a well-formed UTF-8 sequence, all of it
  escaped, and stands for the code point of that sequence. Everything else throws a
  URIError: the result is \<open>None\<close>.
\<close>

fun take_escape :: "jsstring \<Rightarrow> (nat \<times> jsstring) option" where
  "take_escape (p # h1 # h2 # r) =
     (if p = ch CHR ''%'' then
        (case (hex_val h1, hex_val h2) of
           (Some a, Some b) \<Rightarrow> Some (16 * a + b, r)
         | _ \<Rightarrow> None)
      else None)"
| "take_escape _ = None"

fun take_escapes :: "nat \<Rightarrow> jsstring \<Rightarrow> (nat list \<times> jsstring) option" where
  "take_escapes 0 s = Some ([], s)"
| "take_escapes (Suc k) s =
     (case take_escape s of
        None \<Rightarrow> None
      | Some (b, r) \<Rightarrow> map_option (\<lambda>(bs, r'). (b # bs, r')) (take_escapes k r))"

definition is_cont :: "nat \<Rightarrow> bool" where
  "is_cont b = (128 \<le> b \<and> b \<le> 191)"

text \<open>The code point of a well-formed UTF-8 sequence of two to four octets.\<close>

fun utf8_code_point :: "nat list \<Rightarrow> nat option" where
  "utf8_code_point [b1, b2] =
     (if 194 \<le> b1 \<and> b1 \<le> 223 \<and> is_cont b2
      then Some ((b1 mod 32) * 64 + b2 mod 64) else None)"
| "utf8_code_point [b1, b2, b3] =
     (if 224 \<le> b1 \<and> b1 \<le> 239
         \<and> (if b1 = 224 then 160 else 128) \<le> b2 \<and> b2 \<le> (if b1 = 237 then 159 else 191)
         \<and> is_cont b3
      then Some (((b1 mod 16) * 64 + b2 mod 64) * 64 + b3 mod 64) else None)"
| "utf8_code_point [b1, b2, b3, b4] =
     (if 240 \<le> b1 \<and> b1 \<le> 244
         \<and> (if b1 = 240 then 144 else 128) \<le> b2 \<and> b2 \<le> (if b1 = 244 then 143 else 191)
         \<and> is_cont b3 \<and> is_cont b4
      then Some ((((b1 mod 8) * 64 + b2 mod 64) * 64 + b3 mod 64) * 64 + b4 mod 64) else None)"
| "utf8_code_point _ = None"

lemma take_escape_shorter:
  "take_escape s = Some (b, r) \<Longrightarrow> length r < length s"
  by (induction s rule: take_escape.induct)
     (auto split: if_splits option.splits)

lemma take_escapes_shorter:
  "take_escapes k s = Some (bs, r) \<Longrightarrow> length r \<le> length s"
proof (induction k arbitrary: s bs r)
  case 0
  then show ?case by simp
next
  case (Suc k)
  then obtain b r1 bs1 where
    e: "take_escape s = Some (b, r1)" and es: "take_escapes k r1 = Some (bs1, r)"
    by (auto split: option.splits)
  have "length r \<le> length r1"
    using es by (rule Suc.IH)
  also have "\<dots> \<le> length s"
    using take_escape_shorter [OF e] by simp
  finally show ?case .
qed

function decodeURIComponent :: "jsstring \<Rightarrow> jsstring option" where
  "decodeURIComponent [] = Some []"
| "decodeURIComponent (c # cs) =
     (if c \<noteq> ch CHR ''%'' then map_option ((#) c) (decodeURIComponent cs)
      else
        (case take_escape (c # cs) of
           None \<Rightarrow> None
         | Some (b, r1) \<Rightarrow>
             if b < 128 then map_option ((#) b) (decodeURIComponent r1)
             else if b < 192 \<or> 248 \<le> b then None
             else
               (case take_escapes (if b < 224 then 1 else if b < 240 then 2 else 3) r1 of
                  None \<Rightarrow> None
                | Some (bs, r2) \<Rightarrow>
                    (case utf8_code_point (b # bs) of
                       None \<Rightarrow> None
                     | Some cp \<Rightarrow>
                         map_option ((@) (utf16_encode cp)) (decodeURIComponent r2)))))"
  by pat_completeness auto
termination
proof (relation "measure length", goal_cases)
  case 1
  then show ?case by simp
next
  case (2 c cs)
  then show ?case by simp
next
  case (3 c cs x2 b r1)
  then show ?case
    using take_escape_shorter [of "c # cs" b r1] by simp
next
  case (4 c cs x2 b r1 x2a bs r2 cp)
  have "length r2 \<le> length r1"
    using 4 take_escapes_shorter [of _ r1 bs r2] by metis
  moreover have "length r1 < length (c # cs)"
    using 4 take_escape_shorter [of "c # cs" b r1] by metis
  ultimately show ?case by simp
qed

section \<open>\<open>TextDecoder\<close>, \<open>atob\<close>\<close>

text \<open>
  The UTF-8 decoder of \<open>new TextDecoder().decode(bytes)\<close>: a leading byte order mark
  is dropped, and every ill-formed sequence becomes U+FFFD, the byte that broke a
  sequence being read again as the start of the next one. The state is the code point
  built so far, the number of bytes it still needs and the range allowed for the next
  byte.
\<close>

type_synonym utf8_state = "nat \<times> nat \<times> nat \<times> nat"

definition utf8_idle :: utf8_state where
  "utf8_idle = (0, 0, 128, 191)"

definition utf8_start :: "nat \<Rightarrow> jsstring \<times> utf8_state" where
  "utf8_start b =
     (if b < 128 then ([b], utf8_idle)
      else if 194 \<le> b \<and> b \<le> 223 then ([], (b mod 32, 1, 128, 191))
      else if 224 \<le> b \<and> b \<le> 239 then
        ([], (b mod 16, 2, (if b = 224 then 160 else 128), (if b = 237 then 159 else 191)))
      else if 240 \<le> b \<and> b \<le> 244 then
        ([], (b mod 8, 3, (if b = 240 then 144 else 128), (if b = 244 then 143 else 191)))
      else ([65533], utf8_idle))"

fun utf8_loop :: "utf8_state \<Rightarrow> nat list \<Rightarrow> jsstring" where
  "utf8_loop (cp, needed, lower, upper) [] = (if needed \<noteq> 0 then [65533] else [])"
| "utf8_loop (cp, needed, lower, upper) (b # bs) =
     (if needed = 0 then
        (case utf8_start b of (out, st) \<Rightarrow> out @ utf8_loop st bs)
      else if b < lower \<or> upper < b then
        (case utf8_start b of (out, st) \<Rightarrow> 65533 # out @ utf8_loop st bs)
      else if needed = 1 then
        utf16_encode (cp * 64 + b mod 64) @ utf8_loop utf8_idle bs
      else utf8_loop (cp * 64 + b mod 64, needed - 1, 128, 191) bs)"

definition TextDecoder_decode :: "nat list \<Rightarrow> jsstring" where
  "TextDecoder_decode bytes =
     utf8_loop utf8_idle (if take 3 bytes = [239, 187, 191] then drop 3 bytes else bytes)"

text \<open>A \<open>Uint8Array\<close> built from numbers keeps each of them modulo 256.\<close>

definition Uint8Array :: "nat list \<Rightarrow> nat list" where
  "Uint8Array vs = map (\<lambda>v. v mod 256) vs"

text \<open>
  \<open>atob\<close> is the forgiving base64 decoder: ASCII white space is dropped, one or two
  padding signs are dropped from a text whose length is a multiple of four, and the
  rest must be base64 digits, not one more than a multiple of four of them. The
  result is a binary string, one code unit per byte; \<open>None\<close> is the
  InvalidCharacterError.
\<close>

definition b64_val :: "nat \<Rightarrow> nat option" where
  "b64_val c =
     (if is_upper c then Some (c - ch CHR ''A'')
      else if is_lower c then Some (c - ch CHR ''a'' + 26)
      else if is_digit c then Some (c - ch CHR ''0'' + 52)
      else if c = ch CHR ''+'' then Some 62
      else if c = ch CHR ''/'' then Some 63
      else None)"

definition is_ascii_space :: "nat \<Rightarrow> bool" where
  "is_ascii_space c = (c = 9 \<or> c = 10 \<or> c = 12 \<or> c = 13 \<or> c = 32)"

definition strip_padding :: "jsstring \<Rightarrow> jsstring" where
  "strip_padding d =
     (if length d mod 4 = 0 then
        (if 2 \<le> length d \<and> drop (length d - 2) d = js ''=='' then take (length d - 2) d
         else if 1 \<le> length d \<and> drop (length d - 1) d = js ''='' then take (length d - 1) d
         else d)
      else d)"

fun b64_bytes :: "nat list \<Rightarrow> nat list" where
  "b64_bytes (a # b # c # d # r) =
     (a * 4 + b div 16) # ((b mod 16) * 16 + c div 4) # ((c mod 4) * 64 + d) # b64_bytes r"
| "b64_bytes [a, b, c] = [a * 4 + b div 16, (b mod 16) * 16 + c div 4]"
| "b64_bytes [a, b] = [a * 4 + b div 16]"
| "b64_bytes _ = []"

definition atob :: "jsstring \<Rightarrow> jsstring option" where
  "atob data =
     (let d = strip_padding (filter (\<lambda>c. \<not> is_ascii_space c) data)
      in if length d mod 4 = 1 then None
         else if list_ex (\<lambda>c. b64_val c = None) d then None
         else Some (b64_bytes (map (\<lambda>c. the (b64_val c)) d)))"

section \<open>The worker: parsing one candidate\<close>

text \<open>
  The result of one parser attempt: \<open>{ ok: false }\<close>, or
  \<open>{ ok: true, value, rawText }\<close>.
\<close>

datatype parse_result = Failed | Parsed (pvalue: jvalue) (rawText: jsstring)

definition fail :: parse_result where
  "fail = Failed"

fun ok :: "parse_result \<Rightarrow> bool" where
  "ok Failed = False"
| "ok (Parsed v t) = True"

text \<open>
  \<open>typeof\<close> and truthiness of a parsed value. A number is falsy when it is zero,
  that is when its literal rounds to zero as a double.
\<close>

fun typeof :: "jvalue \<Rightarrow> string" where
  "typeof JNull = ''object''"
| "typeof (JBool b) = ''boolean''"
| "typeof (JNum q) = ''number''"
| "typeof (JStr s) = ''string''"
| "typeof (JArr vs) = ''object''"
| "typeof (JObj kvs) = ''object''"

fun truthy :: "jvalue \<Rightarrow> bool" where
  "truthy JNull = False"
| "truthy (JBool b) = b"
| "truthy (JNum q) = (1 / 2 ^ 1075 < \<bar>q\<bar>)"
| "truthy (JStr s) = (s \<noteq> [])"
| "truthy (JArr vs) = True"
| "truthy (JObj kvs) = True"

definition parseJson :: "jsstring \<Rightarrow> jsstring \<Rightarrow> parse_result" where
  "parseJson text raw =
     (case JSON_parse text of
        None \<Rightarrow> fail
      | Some val \<Rightarrow> if truthy val \<and> typeof val = ''object'' then Parsed val raw else fail)"

definition safeDecodeURIComponent :: "jsstring \<Rightarrow> jsstring option" where
  "safeDecodeURIComponent s = decodeURIComponent s"

definition looksLikeB64Prefix :: "jsstring \<Rightarrow> bool" where
  "looksLikeB64Prefix s = (let lower = toLowerCase (take 2 s) in lower \<in> set [js ''ey''])"

definition looksLikeBase32Prefix :: "jsstring \<Rightarrow> bool" where
  "looksLikeBase32Prefix s =
     (let lower = toLowerCase (take 2 s) in lower \<in> set [js ''pm'', js ''on'', js ''em''])"

definition looksLikeHexPrefix :: "jsstring \<Rightarrow> bool" where
  "looksLikeHexPrefix s = (let lower = toLowerCase (take 2 s) in lower = js ''7b'')"

subsection \<open>Decoders\<close>

definition stripNonB64Url :: "jsstring \<Rightarrow> jsstring" where
  "stripNonB64Url s =
     filter (\<lambda>c. is_upper c \<or> is_lower c \<or> is_digit c \<or> c = ch CHR ''-'' \<or> c = ch CHR ''_'') s"

definition stripNonB64Std :: "jsstring \<Rightarrow> jsstring" where
  "stripNonB64Std s =
     filter (\<lambda>c. is_upper c \<or> is_lower c \<or> is_digit c
                \<or> c = ch CHR ''+'' \<or> c = ch CHR ''/'' \<or> c = ch CHR ''='') s"

text \<open>The class \<open>[A-Z2-7=]\<close> is matched without regard to case.\<close>

definition stripNonBase32 :: "jsstring \<Rightarrow> jsstring" where
  "stripNonBase32 s =
     filter (\<lambda>c. is_upper c \<or> is_lower c \<or> (ch CHR ''2'' \<le> c \<and> c \<le> ch CHR ''7'')
                \<or> c = ch CHR ''='') s"

definition stripNonHex :: "jsstring \<Rightarrow> jsstring" where
  "stripNonHex s =
     filter (\<lambda>c. (ch CHR ''A'' \<le> c \<and> c \<le> ch CHR ''F'') \<or> (ch CHR ''a'' \<le> c \<and> c \<le> ch CHR ''f'')
                \<or> is_digit c) s"

definition padBase64 :: "jsstring \<Rightarrow> jsstring" where
  "padBase64 s =
     (let rem = length s mod 4
      in if rem \<noteq> 0 then s @ replicate (4 - rem) (ch CHR ''='') else s)"

definition utf8FromBytes :: "jsstring \<Rightarrow> jsstring" where
  "utf8FromBytes binStr = TextDecoder_decode (Uint8Array binStr)"

definition b64urlToUtf8 :: "jsstring \<Rightarrow> jsstring option" where
  "b64urlToUtf8 s =
     (let padded =
            padBase64
              (map (\<lambda>c. if c = ch CHR ''_'' then ch CHR ''/'' else c)
                 (map (\<lambda>c. if c = ch CHR ''-'' then ch CHR ''+'' else c) s))
      in map_option utf8FromBytes (atob padded))"

definition b64StdToUtf8 :: "jsstring \<Rightarrow> jsstring option" where
  "b64StdToUtf8 s = (let padded = padBase64 s in map_option utf8FromBytes (atob padded))"

text \<open>
  \<open>indexOf\<close> gives \<open>-1\<close> for a character that does not occur; \<open>toString2\<close> is
  \<open>val.toString(2)\<close>, and \<open>padStart5\<close> is \<open>padStart(5, "0")\<close>.
\<close>

fun index_from :: "jsstring \<Rightarrow> nat \<Rightarrow> nat \<Rightarrow> int" where
  "index_from [] c i = - 1"
| "index_from (x # xs) c i = (if x = c then int i else index_from xs c (i + 1))"

definition indexOf :: "jsstring \<Rightarrow> nat \<Rightarrow> int" where
  "indexOf s c = index_from s c 0"

fun toString2 :: "nat \<Rightarrow> jsstring" where
  "toString2 n =
     (if n < 2 then [ch CHR ''0'' + n] else toString2 (n div 2) @ [ch CHR ''0'' + n mod 2])"

declare toString2.simps [simp del]

definition padStart5 :: "jsstring \<Rightarrow> jsstring" where
  "padStart5 s = replicate (5 - length s) (ch CHR ''0'') @ s"

definition parseInt2 :: "jsstring \<Rightarrow> nat" where
  "parseInt2 b = foldl (\<lambda>a c. 2 * a + (c - ch CHR ''0'')) 0 b"

definition base32_alphabet :: jsstring where
  "base32_alphabet = js ''ABCDEFGHIJKLMNOPQRSTUVWXYZ234567''"

fun base32_bits :: "jsstring \<Rightarrow> jsstring" where
  "base32_bits [] = []"
| "base32_bits (c # cs) =
     (let val = indexOf base32_alphabet c
      in if val = - 1 then base32_bits cs
         else padStart5 (toString2 (nat val)) @ base32_bits cs)"

text \<open>The matches of \<open>/.{8}/g\<close> and of \<open>/.{2}/g\<close>: a shorter rest is left out.\<close>

fun chunks8 :: "jsstring \<Rightarrow> jsstring list" where
  "chunks8 (a # b # c # d # e # f # g # h # r) = [a, b, c, d, e, f, g, h] # chunks8 r"
| "chunks8 _ = []"

fun chunks2 :: "jsstring \<Rightarrow> jsstring list" where
  "chunks2 (a # b # r) = [a, b] # chunks2 r"
| "chunks2 _ = []"

definition base32ToUtf8 :: "jsstring \<Rightarrow> jsstring option" where
  "base32ToUtf8 s =
     (let cleaned = rev (dropWhile (\<lambda>c. c = ch CHR ''='') (rev (toUpperCase s)));
          bits = base32_bits cleaned;
          bytes = map parseInt2 (chunks8 bits)
      in Some (TextDecoder_decode (Uint8Array bytes)))"

text \<open>
  \<open>parseInt(h, 16)\<close> on a pair of characters: the value of the two hexadecimal
  digits. \<open>stripNonHex\<close> leaves nothing else in the string; for completeness, a pair
  that starts with another character is \<open>NaN\<close>, stored as 0 in the byte array, and a
  digit followed by another character is the digit alone. With no pair at all
  \<open>match\<close> is \<open>null\<close> and the TypeError of \<open>null.map\<close> is caught.
\<close>

definition parseInt16 :: "jsstring \<Rightarrow> nat" where
  "parseInt16 h =
     (case h of
        [a, b] \<Rightarrow>
          (case hex_val a of
             None \<Rightarrow> 0
           | Some x \<Rightarrow> (case hex_val b of None \<Rightarrow> x | Some y \<Rightarrow> 16 * x + y))
      | _ \<Rightarrow> 0)"

definition hexToUtf8 :: "jsstring \<Rightarrow> jsstring option" where
  "hexToUtf8 s0 =
     (let s = (if length s0 mod 2 \<noteq> 0 then take (length s0 - 1) s0 else s0)
      in if chunks2 s = [] then None
         else Some (TextDecoder_decode (Uint8Array (map parseInt16 (chunks2 s)))))"

subsection \<open>\<open>tryParseJson\<close>\<close>

text \<open>
  A decoded text that is \<open>null\<close> or empty is falsy: \<open>text ? parseJson(text, text) : fail()\<close>.
\<close>

definition parse_decoded :: "jsstring option \<Rightarrow> parse_result" where
  "parse_decoded text =
     (case text of
        None \<Rightarrow> fail
      | Some t \<Rightarrow> if t \<noteq> [] then parseJson t t else fail)"

definition attempt_percent :: "jsstring \<Rightarrow> parse_result" where
  "attempt_percent input = parse_decoded (safeDecodeURIComponent input)"

definition attempt_raw :: "jsstring \<Rightarrow> parse_result" where
  "attempt_raw input = parseJson input input"

definition attempt_b64url :: "jsstring \<Rightarrow> parse_result" where
  "attempt_b64url input =
     (let raw = stripNonB64Url input
      in if \<not> looksLikeB64Prefix raw then fail else parse_decoded (b64urlToUtf8 raw))"

definition attempt_b64std :: "jsstring \<Rightarrow> parse_result" where
  "attempt_b64std input =
     (let raw = stripNonB64Std input
      in if \<not> looksLikeB64Prefix raw then fail else parse_decoded (b64StdToUtf8 raw))"

definition attempt_base32 :: "jsstring \<Rightarrow> parse_result" where
  "attempt_base32 input =
     (let raw = stripNonBase32 input
      in if \<not> looksLikeBase32Prefix raw then fail else parse_decoded (base32ToUtf8 raw))"

definition attempt_hex :: "jsstring \<Rightarrow> parse_result" where
  "attempt_hex input =
     (let raw = stripNonHex input
      in if \<not> looksLikeHexPrefix raw then fail else parse_decoded (hexToUtf8 raw))"

text \<open>The array of closures, in the order they are pushed.\<close>

definition attempts :: "jsstring \<Rightarrow> (unit \<Rightarrow> parse_result) list" where
  "attempts input =
     [\<lambda>_. attempt_percent input,
      \<lambda>_. attempt_raw input,
      \<lambda>_. attempt_b64url input,
      \<lambda>_. attempt_b64std input,
      \<lambda>_. attempt_base32 input,
      \<lambda>_. attempt_hex input]"

text \<open>
  The loop over the attempts. Beside the result it returns how many closures it has
  called, which the program does not compute: the count is there to state which
  attempts run.
\<close>

fun run_attempts :: "(unit \<Rightarrow> parse_result) list \<Rightarrow> nat \<times> parse_result" where
  "run_attempts [] = (0, fail)"
| "run_attempts (f # fs) =
     (let r = f ()
      in if ok r then (1, r)
         else (case run_attempts fs of (n, r') \<Rightarrow> (n + 1, r')))"

definition tryParseJson :: "jsstring \<Rightarrow> parse_result" where
  "tryParseJson input = snd (run_attempts (attempts input))"

section \<open>The worker: the request handler\<close>

record url =
  origin :: jsstring
  pathname :: jsstring
  search :: jsstring

record request =
  req_method :: string
  req_url :: url
  req_headers :: "(string \<times> string) list"

text \<open>
  A response body: none, a page, a string sent as it is, or a value sent as
  \<open>JSON.stringify(body, null, 2)\<close>.
\<close>

datatype body = NoBody | Html | Text jsstring | Stringified jvalue

text \<open>
  Modelled from the spec: the page \<open>./index.html\<close> that the worker imports is not
  among the sources. The specification calls it the static landing page; what it
  holds plays no role, so it is a body of a kind of its own.
\<close>

definition html :: body where
  "html = Html"

record response =
  status :: nat
  headers :: "(string \<times> string) list"
  body :: body

definition corsHeaders :: "(string \<times> string) list" where
  "corsHeaders =
     [(''access-control-allow-origin'', ''*''),
      (''access-control-allow-methods'', ''GET, HEAD, OPTIONS''),
      (''access-control-allow-headers'', ''Content-Type'')]"

text \<open>
  \<open>JSON.stringify(body, null, 2)\<close> walks the value by recursion and builds its
  text. An engine throws a RangeError where the value is nested deeper than its stack
  allows, or where the text would be longer than its strings may be. Where that
  happens is a matter of the engine and of its state, not of the source: an
  \<open>engine\<close> is the set of values on which its call throws. A value that holds
  no array or object inside another, as the error bodies of the worker, is taken to
  be serialised by every engine: the recursion is one level deep. The text itself
  plays no role here; the result is the value, marked as serialised.
\<close>

datatype error = RangeError

type_synonym engine = "jvalue \<Rightarrow> bool"

fun nesting :: "jvalue \<Rightarrow> nat" where
  "nesting (JArr vs) = Suc (fold max (map nesting vs) 0)"
| "nesting (JObj kvs) = Suc (fold max (map (\<lambda>(k, v). nesting v) kvs) 0)"
| "nesting _ = 0"

definition stringify_raises :: "engine \<Rightarrow> jvalue \<Rightarrow> bool" where
  "stringify_raises eng v = (1 < nesting v \<and> eng v)"

definition JSON_stringify :: "engine \<Rightarrow> jvalue \<Rightarrow> error + body" where
  "JSON_stringify eng v = (if stringify_raises eng v then Inl RangeError else Inr (Stringified v))"

text \<open>The response that \<open>json\<close> builds around a body and a status.\<close>

definition json_response :: "body \<Rightarrow> nat \<Rightarrow> response" where
  "json_response b st =
     \<lparr>status = st,
      headers =
        [(''content-type'', ''application/json; charset=utf-8''),
         (''cache-control'', ''public, immutable, max-age=86400, s-maxage=86400'')]
        @ corsHeaders,
      body = b\<rparr>"

text \<open>
  \<open>json\<close> calls \<open>JSON.stringify\<close> outside any \<open>try\<close>: a RangeError leaves the
  function, and the handler with it.
\<close>

definition json :: "engine \<Rightarrow> jvalue \<Rightarrow> nat \<Rightarrow> error + response" where
  "json eng b st =
     (case (case b of JStr s \<Rightarrow> Inr (Text s) | _ \<Rightarrow> JSON_stringify eng b) of
        Inl e \<Rightarrow> Inl e
      | Inr t \<Rightarrow> Inr (json_response t st))"

definition error_body :: "string \<Rightarrow> jvalue" where
  "error_body msg = JObj [(js ''error'', JStr (js msg))]"

definition landing_page :: response where
  "landing_page =
     \<lparr>status = 200,
      headers =
        [(''content-type'', ''text/html; charset=utf-8''),
         (''cache-control'', ''public, max-age=3600, s-maxage=86400'')],
      body = html\<rparr>"

text \<open>
  The segments of the pathname: leading and trailing slashes trimmed, split at every
  slash, empty segments dropped.
\<close>

definition is_slash :: "nat \<Rightarrow> bool" where
  "is_slash c = (c = ch CHR ''/'')"

definition trim_slashes :: "jsstring \<Rightarrow> jsstring" where
  "trim_slashes s = rev (dropWhile is_slash (rev (dropWhile is_slash s)))"

fun split_slash :: "jsstring \<Rightarrow> jsstring list" where
  "split_slash [] = [[]]"
| "split_slash (c # cs) =
     (if is_slash c then [] # split_slash cs
      else (case split_slash cs of
              [] \<Rightarrow> [[c]]
            | w # ws \<Rightarrow> (c # w) # ws))"

definition path_parts :: "jsstring \<Rightarrow> jsstring list" where
  "path_parts p = filter (\<lambda>s. s \<noteq> []) (split_slash (trim_slashes p))"

definition START_PREFIXES :: "jsstring list" where
  "START_PREFIXES = [js ''{'', js ''%7b'', js ''7b'', js ''pm'', js ''ey'']"

definition is_start :: "jsstring \<Rightarrow> bool" where
  "is_start part = (let p = toLowerCase part in list_ex (\<lambda>prefix. startsWith p prefix) START_PREFIXES)"

text \<open>The first loop, from index \<open>i\<close> over the parts that remain: \<open>startIdx\<close>, or \<open>-1\<close>.\<close>

fun find_start :: "jsstring list \<Rightarrow> nat \<Rightarrow> int" where
  "find_start [] i = - 1"
| "find_start (part # rest) i = (if is_start part then int i else find_start rest (i + 1))"

text \<open>
  The second loop, over the parts from \<open>endIdx\<close> on, with the string accumulated so
  far. Beside the outcome it returns the candidates it has handed to
  \<open>tryParseJson\<close>, in order; the program does not compute that list.
\<close>

fun scan :: "engine \<Rightarrow> jsstring \<Rightarrow> jsstring list \<Rightarrow> jsstring list \<times> (error + response)" where
  "scan eng accumulated [] =
     ([], json eng (error_body ''Could not parse a valid JSON document from the path'') 400)"
| "scan eng accumulated (part # rest) =
     (let accumulated' = (if accumulated \<noteq> [] then accumulated @ ch CHR ''/'' # part else part);
          parsed = tryParseJson accumulated'
      in if ok parsed then
           ([accumulated'],
            if 64000 < length (rawText parsed)
            then json eng (error_body ''Payload too large'') 413
            else json eng (pvalue parsed) 200)
         else (case scan eng accumulated' rest of (tr, r) \<Rightarrow> (accumulated' # tr, r)))"

text \<open>The handler after the landing page: both loops, on the segments of the path.\<close>

definition pipeline_trace :: "engine \<Rightarrow> jsstring list \<Rightarrow> jsstring list \<times> (error + response)" where
  "pipeline_trace eng parts =
     (let startIdx = find_start parts 0
      in if startIdx = - 1
         then ([], json eng (error_body ''No JSON-like segment found'') 400)
         else scan eng [] (drop (nat startIdx) parts))"

definition pipeline :: "engine \<Rightarrow> jsstring list \<Rightarrow> error + response" where
  "pipeline eng parts = snd (pipeline_trace eng parts)"

text \<open>
  The handler, on an engine \<open>eng\<close>: the response it returns, or the error it
  throws.
\<close>

definition fetch :: "engine \<Rightarrow> request \<Rightarrow> 'env \<Rightarrow> error + response" where
  "fetch eng req env =
     (if req_method req = ''OPTIONS''
      then Inr \<lparr>status = 200, headers = corsHeaders, body = NoBody\<rparr>
      else if req_method req \<noteq> ''GET'' \<and> req_method req \<noteq> ''HEAD''
      then json eng (error_body ''Method not allowed'') 405
      else
        (let parts = path_parts (pathname (req_url req))
         in if pathname (req_url req) \<in> set [js ''/'', js ''/index.html'']
            then Inr landing_page
            else pipeline eng parts))"

section \<open>Outcomes and candidates\<close>

text \<open>
  The four outcomes of the scan, as the responses that carry them: the parsed value
  with status 200, and the three error bodies.
\<close>

definition Success :: "jvalue \<Rightarrow> response" where
  "Success v = json_response (Stringified v) 200"

definition NoCandidateFound :: response where
  "NoCandidateFound =
     json_response (Stringified (error_body ''No JSON-like segment found'')) 400"

definition PayloadTooLarge :: response where
  "PayloadTooLarge = json_response (Stringified (error_body ''Payload too large'')) 413"

definition Exhausted :: response where
  "Exhausted =
     json_response
       (Stringified (error_body ''Could not parse a valid JSON document from the path'')) 400"

text \<open>
  The values \<open>accumulated\<close> takes in the second loop, one for each part, when no
  candidate stops the loop; and the part of such a list that a scan examines: up to
  its first member that parses, that member included.
\<close>

fun accumulations :: "jsstring \<Rightarrow> jsstring list \<Rightarrow> jsstring list" where
  "accumulations accumulated [] = []"
| "accumulations accumulated (part # rest) =
     (let accumulated' = (if accumulated \<noteq> [] then accumulated @ ch CHR ''/'' # part else part)
      in accumulated' # accumulations accumulated' rest)"

fun examined_upto :: "jsstring list \<Rightarrow> jsstring list" where
  "examined_upto [] = []"
| "examined_upto (c # cs) = (if ok (tryParseJson c) then [c] else c # examined_upto cs)"

text \<open>
  The candidate as the specification words it: the segments from \<open>startIndex\<close> to
  \<open>endIndex\<close>, both included, joined with slashes.
\<close>

fun join_slash :: "jsstring list \<Rightarrow> jsstring" where
  "join_slash [] = []"
| "join_slash [x] = x"
| "join_slash (x # y # r) = x @ ch CHR ''/'' # join_slash (y # r)"

definition segment_range :: "jsstring list \<Rightarrow> nat \<Rightarrow> nat \<Rightarrow> jsstring list" where
  "segment_range parts s e = take (e + 1 - s) (drop s parts)"

definition spec_candidate :: "jsstring list \<Rightarrow> nat \<Rightarrow> nat \<Rightarrow> jsstring" where
  "spec_candidate parts s e = join_slash (segment_range parts s e)"

text \<open>The end of a scan over a list of candidates.\<close>

definition scan_outcome :: "engine \<Rightarrow> jsstring list \<Rightarrow> error + response" where
  "scan_outcome eng cs =
     (case find (\<lambda>c. ok (tryParseJson c)) cs of
        None \<Rightarrow> Inr Exhausted
      | Some c \<Rightarrow>
          if 64000 < length (rawText (tryParseJson c)) then Inr PayloadTooLarge
          else json eng (pvalue (tryParseJson c)) 200)"

text \<open>
  Arrays inside arrays: \<open>nested n\<close> is \<open>[]\<close> inside \<open>n\<close> further arrays. The text
  \<open>deep_text n\<close> is the object \<open>{"a":[[...]]}\<close> that holds it, and \<open>deep_segment n\<close>
  that text with its braces and quotes percent-encoded.
\<close>

fun nested :: "nat \<Rightarrow> jvalue" where
  "nested 0 = JArr []"
| "nested (Suc n) = JArr [nested n]"

definition deep_value :: "nat \<Rightarrow> jvalue" where
  "deep_value n = JObj [(js ''a'', nested n)]"

definition deep_text :: "nat \<Rightarrow> jsstring" where
  "deep_text n =
     js ''{\"a\":'' @ replicate (Suc n) (ch CHR ''['') @ replicate (Suc n) (ch CHR '']'') @ js ''}''"

definition deep_segment :: "nat \<Rightarrow> jsstring" where
  "deep_segment n =
     js ''%7B%22a%22:'' @ replicate (Suc n) (ch CHR ''['') @ replicate (Suc n) (ch CHR '']'')
     @ js ''%7D''"

text \<open>
  An object padded to any length, to try the size ceiling: \<open>{\<close>, then \<open>n\<close> spaces,
  then \<open>}\<close>.
\<close>

definition padded_object :: "nat \<Rightarrow> jsstring" where
  "padded_object n = js ''{'' @ replicate n 32 @ js ''}''"

text \<open>The standard base64 alphabet: \<open>A-Z\<close>, \<open>a-z\<close>, \<open>0-9\<close>, \<open>+\<close> and \<open>/\<close>.\<close>

definition is_b64std_char :: "nat \<Rightarrow> bool" where
  "is_b64std_char c =
     (is_upper c \<or> is_lower c \<or> is_digit c \<or> c = ch CHR ''+'' \<or> c = ch CHR ''/'')"

section \<open>Percent-encoding\<close>

text \<open>
  The percent-encoding that the specification speaks of, as \<open>encodeURIComponent\<close>
  produces it: letters, digits and \<open>- _ . ! ~ * ' ( )\<close> stay, every other code point
  becomes the escapes of its UTF-8 octets, in upper-case hexadecimal. A surrogate
  without its partner throws a URIError: the result is \<open>None\<close>. The worker does not
  call it; it is here to say which segments are percent-encoded texts.
\<close>

definition is_unreserved :: "nat \<Rightarrow> bool" where
  "is_unreserved c =
     (is_upper c \<or> is_lower c \<or> is_digit c \<or> c \<in> set (js ''-_.!~*()'') \<or> c = ch CHR 0x27)"

definition hex_digit :: "nat \<Rightarrow> nat" where
  "hex_digit d = (if d < 10 then ch CHR ''0'' + d else ch CHR ''A'' + (d - 10))"

definition pct :: "nat \<Rightarrow> jsstring" where
  "pct b = [ch CHR ''%'', hex_digit (b div 16), hex_digit (b mod 16)]"

definition utf8_encode :: "nat \<Rightarrow> nat list" where
  "utf8_encode cp =
     (if cp < 128 then [cp]
      else if cp < 2048 then [192 + cp div 64, 128 + cp mod 64]
      else if cp < 65536 then [224 + cp div 4096, 128 + cp div 64 mod 64, 128 + cp mod 64]
      else [240 + cp div 262144, 128 + cp div 4096 mod 64, 128 + cp div 64 mod 64,
            128 + cp mod 64])"

definition pct_encode :: "nat \<Rightarrow> jsstring" where
  "pct_encode cp = concat (map pct (utf8_encode cp))"

fun encodeURIComponent :: "jsstring \<Rightarrow> jsstring option" where
  "encodeURIComponent [] = Some []"
| "encodeURIComponent (c # cs) =
     (if is_unreserved c then map_option ((#) c) (encodeURIComponent cs)
      else if 55296 \<le> c \<and> c \<le> 56319 then
        (case cs of
           [] \<Rightarrow> None
         | d # cs' \<Rightarrow>
             if 56320 \<le> d \<and> d \<le> 57343
             then map_option ((@) (pct_encode (65536 + (c - 55296) * 1024 + (d - 56320))))
                    (encodeURIComponent cs')
             else None)
      else if 56320 \<le> c \<and> c \<le> 57343 then None
      else map_option ((@) (pct_encode c)) (encodeURIComponent cs))"

section \<open>Evaluation\<close>

text \<open>The definitions that the simplifier unfolds to run the model on a concrete path.\<close>

lemmas eval_defs = js_def toLowerCase_def toUpperCase_def startsWith_def is_digit_def is_upper_def
  is_lower_def hex_val_def utf16_encode_def hex4_def simple_escape_def digits_val_def pow10_def
  lex_sign_def lex_fraction_def lex_exponent_def lex_number_def is_json_space_def obj_put_def
  JSON_parse_def is_cont_def utf8_idle_def utf8_start_def TextDecoder_decode_def Uint8Array_def
  b64_val_def is_ascii_space_def strip_padding_def atob_def fail_def parseJson_def
  safeDecodeURIComponent_def looksLikeB64Prefix_def looksLikeBase32Prefix_def looksLikeHexPrefix_def
  stripNonB64Url_def stripNonB64Std_def stripNonBase32_def stripNonHex_def padBase64_def
  utf8FromBytes_def b64urlToUtf8_def b64StdToUtf8_def indexOf_def padStart5_def parseInt2_def
  base32_alphabet_def base32ToUtf8_def parseInt16_def hexToUtf8_def parse_decoded_def
  attempt_percent_def attempt_raw_def attempt_b64url_def attempt_b64std_def attempt_base32_def
  attempt_hex_def toString2.simps Let_def

lemmas path_defs = path_parts_def trim_slashes_def is_slash_def js_def

lemmas start_defs = is_start_def START_PREFIXES_def startsWith_def toLowerCase_def js_def Let_def

lemma tryParseJson_eval:
  "tryParseJson input =
     (if ok (attempt_percent input) then attempt_percent input
      else if ok (attempt_raw input) then attempt_raw input
      else if ok (attempt_b64url input) then attempt_b64url input
      else if ok (attempt_b64std input) then attempt_b64std input
      else if ok (attempt_base32 input) then attempt_base32 input
      else if ok (attempt_hex input) then attempt_hex input
      else Failed)"
  by (simp add: tryParseJson_def attempts_def Let_def fail_def)

section \<open>The filtered strings\<close>

text \<open>
  What the four filters leave is ASCII, so that \<open>toLowerCase\<close> and \<open>toUpperCase\<close> act
  on it as modelled, and \<open>stripNonHex\<close> leaves hexadecimal digits only, so that
  \<open>parseInt(h, 16)\<close> reads two digits from every pair.
\<close>

lemma strip_ascii:
  "c \<in> set (stripNonB64Url s) \<Longrightarrow> c < 128"
  "c \<in> set (stripNonB64Std s) \<Longrightarrow> c < 128"
  "c \<in> set (stripNonBase32 s) \<Longrightarrow> c < 128"
  "c \<in> set (stripNonHex s) \<Longrightarrow> c < 128"
  by (auto simp: stripNonB64Url_def stripNonB64Std_def stripNonBase32_def stripNonHex_def
      is_upper_def is_lower_def is_digit_def)

lemma stripNonHex_digits: "c \<in> set (stripNonHex s) \<Longrightarrow> hex_val c \<noteq> None"
  by (auto simp: stripNonHex_def hex_val_def is_digit_def)

section \<open>The two loops\<close>

text \<open>
  \<open>json\<close> returns on a string, on a value that the engine serialises, and on every
  error body; it throws on any other value.
\<close>

lemma nesting_error_body: "nesting (error_body msg) = 1"
  by (simp add: error_body_def)

lemma json_error_body:
  "json eng (error_body msg) st = Inr (json_response (Stringified (error_body msg)) st)"
  by (simp add: json_def JSON_stringify_def stringify_raises_def nesting_error_body error_body_def)

lemma json_cases:
  "json eng b st =
     (case b of
        JStr s \<Rightarrow> Inr (json_response (Text s) st)
      | _ \<Rightarrow> if stringify_raises eng b then Inl RangeError
             else Inr (json_response (Stringified b) st))"
  by (simp add: json_def JSON_stringify_def split: jvalue.splits)

lemma json_object:
  "json eng (JObj kvs) 200 =
     (if stringify_raises eng (JObj kvs) then Inl RangeError else Inr (Success (JObj kvs)))"
  by (simp add: json_cases Success_def)

lemma json_array:
  "json eng (JArr vs) 200 =
     (if stringify_raises eng (JArr vs) then Inl RangeError else Inr (Success (JArr vs)))"
  by (simp add: json_cases Success_def)

lemma json_status: "json eng b st = Inr r \<Longrightarrow> status r = st"
  by (auto simp: json_cases json_response_def split: jvalue.splits if_splits)

lemma scan_eq:
  "scan eng acc ps =
     (examined_upto (accumulations acc ps), scan_outcome eng (accumulations acc ps))"
proof (induction ps arbitrary: acc)
  case Nil
  then show ?case
    by (simp add: scan_outcome_def Exhausted_def json_error_body)
next
  case (Cons p ps)
  then show ?case
    by (simp add: scan_outcome_def Let_def PayloadTooLarge_def json_error_body)
qed

lemma scan_trace: "fst (scan eng acc ps) = examined_upto (accumulations acc ps)"
  by (simp add: scan_eq)

lemma scan_result: "snd (scan eng acc ps) = scan_outcome eng (accumulations acc ps)"
  by (simp add: scan_eq)

lemma find_first:
  "\<forall>x\<in>set pre. \<not> P x \<Longrightarrow> P c \<Longrightarrow> find P (pre @ c # post) = Some c"
  by (induction pre) auto

lemma examined_upto_first:
  "\<forall>x\<in>set pre. \<not> ok (tryParseJson x) \<Longrightarrow> ok (tryParseJson c)
   \<Longrightarrow> examined_upto (pre @ c # post) = pre @ [c]"
  by (induction pre) auto

lemma find_start_takeWhile:
  "find_start ps i =
     (if list_ex is_start ps then int (i + length (takeWhile (\<lambda>p. \<not> is_start p) ps)) else - 1)"
  by (induction ps arbitrary: i) auto

lemma status_outcomes:
  "status (Success v) = 200" "status NoCandidateFound = 400" "status PayloadTooLarge = 413"
  "status Exhausted = 400"
  by (simp_all add: Success_def NoCandidateFound_def PayloadTooLarge_def Exhausted_def
      json_response_def)

lemma scan_not_NoCandidateFound: "snd (scan eng acc ps) \<noteq> Inr NoCandidateFound"
proof -
  have "Exhausted \<noteq> NoCandidateFound"
    by (simp add: Exhausted_def NoCandidateFound_def json_response_def error_body_def js_def)
  moreover have "PayloadTooLarge \<noteq> NoCandidateFound"
    by (simp add: PayloadTooLarge_def NoCandidateFound_def json_response_def)
  moreover have "json eng v 200 \<noteq> Inr NoCandidateFound" for v
    using json_status [of eng v 200 NoCandidateFound] by (auto simp: status_outcomes)
  ultimately show ?thesis
    by (simp add: scan_result scan_outcome_def split: option.splits)
qed

lemma pipeline_cases:
  "pipeline eng parts =
     (if list_ex is_start parts
      then snd (scan eng [] (drop (length (takeWhile (\<lambda>p. \<not> is_start p) parts)) parts))
      else Inr NoCandidateFound)"
  by (simp add: pipeline_def pipeline_trace_def find_start_takeWhile NoCandidateFound_def Let_def
      json_error_body)

lemma startsWith_prefix: "startsWith s p = prefix p s"
  unfolding startsWith_def prefix_def
  by (metis append_eq_conv_conj append_take_drop_id)

lemma is_start_prefixes:
  "is_start s =
     (\<exists>p \<in> set [js ''{'', js ''%7b'', js ''7b'', js ''ey'', js ''pm''].
        prefix p (toLowerCase s))"
  by (auto simp: is_start_def START_PREFIXES_def startsWith_prefix Let_def)

lemma takeWhile_shorter:
  "\<exists>x\<in>set xs. \<not> P x \<Longrightarrow> length (takeWhile P xs) < length xs"
  by (induction xs) auto

lemma join_slash_Cons:
  "ys \<noteq> [] \<Longrightarrow> join_slash (x # ys) = x @ ch CHR ''/'' # join_slash ys"
  by (cases ys) auto

lemma join_slash_take:
  "k < length ps \<Longrightarrow>
   join_slash (p # take (Suc k) ps) = p @ ch CHR ''/'' # join_slash (take (Suc k) ps)"
  by (cases ps) auto

lemma accumulations_from:
  "acc \<noteq> [] \<Longrightarrow>
   accumulations acc ps =
     map (\<lambda>k. acc @ ch CHR ''/'' # join_slash (take (Suc k) ps)) [0..<length ps]"
proof (induction ps arbitrary: acc)
  case Nil
  then show ?case by simp
next
  case (Cons p ps)
  let ?a = "acc @ ch CHR ''/'' # p"
  have "accumulations ?a ps =
          map (\<lambda>k. ?a @ ch CHR ''/'' # join_slash (take (Suc k) ps)) [0..<length ps]"
    by (rule Cons.IH) simp
  also have "\<dots> =
          map (\<lambda>k. acc @ ch CHR ''/'' # join_slash (take (Suc (Suc k)) (p # ps))) [0..<length ps]"
    by (rule map_cong) (auto simp: join_slash_take)
  finally show ?case
    using Cons.prems by (simp add: Let_def map_upt_Suc del: upt_Suc)
qed

lemma accumulations_start:
  assumes "ps = [] \<or> hd ps \<noteq> []"
  shows "accumulations [] ps = map (\<lambda>k. join_slash (take (Suc k) ps)) [0..<length ps]"
proof (cases ps)
  case Nil
  then show ?thesis by simp
next
  case (Cons p rest)
  with assms have p: "p \<noteq> []" by simp
  have "accumulations p rest =
          map (\<lambda>k. p @ ch CHR ''/'' # join_slash (take (Suc k) rest)) [0..<length rest]"
    using p by (rule accumulations_from)
  also have "\<dots> = map (\<lambda>k. join_slash (take (Suc (Suc k)) (p # rest))) [0..<length rest]"
    by (rule map_cong) (auto simp: join_slash_take)
  finally show ?thesis
    using Cons by (simp add: Let_def map_upt_Suc del: upt_Suc)
qed

lemma path_parts_nonempty: "s \<in> set (path_parts p) \<Longrightarrow> s \<noteq> []"
  by (simp add: path_parts_def)

lemma examined_upto_all:
  "list_all (\<lambda>c. \<not> ok (tryParseJson c)) cs \<Longrightarrow> examined_upto cs = cs"
  by (induction cs) auto

lemma examined_upto_prefix: "prefix (examined_upto cs) cs"
  by (induction cs) auto

lemma take_prefix_take: "n \<le> m \<Longrightarrow> prefix (take n xs) (take m xs)"
  by (metis min.absorb1 take_is_prefix take_take)

lemma join_slash_append:
  "join_slash (xs @ ys) =
     (if xs = [] then join_slash ys
      else if ys = [] then join_slash xs
      else join_slash xs @ ch CHR ''/'' # join_slash ys)"
  by (induction xs rule: join_slash.induct) (auto simp: join_slash_Cons)

lemma join_slash_prefix: "prefix xs ys \<Longrightarrow> prefix (join_slash xs) (join_slash ys)"
  by (auto simp: prefix_def join_slash_append)

lemma find_start_bound: "find_start ps 0 = int s \<Longrightarrow> s < length ps"
  using takeWhile_shorter [of ps "\<lambda>p. \<not> is_start p"]
  by (auto simp: find_start_takeWhile list_ex_iff split: if_splits)

lemma json_not_landing: "json eng b st \<noteq> Inr landing_page"
  by (simp add: json_cases json_response_def landing_page_def html_def split: jvalue.splits)

lemma pipeline_not_landing: "pipeline eng parts \<noteq> Inr landing_page"
proof -
  have "json_response b st \<noteq> landing_page" for b st
    by (simp add: json_response_def landing_page_def)
  then show ?thesis
    by (simp add: pipeline_cases scan_result scan_outcome_def NoCandidateFound_def
        PayloadTooLarge_def Exhausted_def json_not_landing split: option.splits)
qed

section \<open>A payload split over two segments\<close>

text \<open>
  The path \<open>/x/%7B%22a/b%22%3A1%7D/y\<close>: the scan starts at the second segment, which
  no decoder parses alone; with the third it is the percent-encoding of
  \<open>{"a/b":1}\<close>, and the fourth segment is never looked at.
\<close>

lemma split_parts:
  "path_parts (js ''/x/%7B%22a/b%22%3A1%7D/y'') =
     [js ''x'', js ''%7B%22a'', js ''b%22%3A1%7D'', js ''y'']"
  by (simp add: path_defs)

lemma split_starts:
  "\<not> is_start (js ''x'')" "is_start (js ''%7B%22a'')"
  by (simp_all add: start_defs)

lemma split_first: "tryParseJson (js ''%7B%22a'') = Failed"
  unfolding tryParseJson_eval by (simp add: eval_defs)

lemma split_second:
  "tryParseJson (js ''%7B%22a/b%22%3A1%7D'') =
     Parsed (JObj [(js ''a/b'', JNum 1)]) (js ''{\"a/b\":1}'')"
  unfolding tryParseJson_eval by (simp add: eval_defs)

lemma split_joins:
  "js ''%7B%22a'' @ 47 # js ''b%22%3A1%7D'' = js ''%7B%22a/b%22%3A1%7D''"
  "js ''%7B%22a/b%22%3A1%7D'' @ 47 # js ''y'' = js ''%7B%22a/b%22%3A1%7D/y''"
  by (simp_all add: js_def)

lemma split_nonempty:
  "js ''%7B%22a'' \<noteq> []" "js ''%7B%22a/b%22%3A1%7D'' \<noteq> []"
  by (simp_all add: js_def)

lemma split_accumulations:
  "accumulations [] [js ''%7B%22a'', js ''b%22%3A1%7D'', js ''y''] =
     [js ''%7B%22a'', js ''%7B%22a/b%22%3A1%7D'', js ''%7B%22a/b%22%3A1%7D/y'']"
  by (simp add: Let_def split_joins split_nonempty)

lemma plain_parts: "path_parts (js ''/not-json-at-all'') = [js ''not-json-at-all'']"
  by (simp add: path_defs)

lemma plain_start: "\<not> is_start (js ''not-json-at-all'')"
  by (simp add: start_defs)

lemma split_candidates:
  "spec_candidate [js ''x'', js ''%7B%22a'', js ''b%22%3A1%7D'', js ''y''] 1 1 = js ''%7B%22a''"
  "spec_candidate [js ''x'', js ''%7B%22a'', js ''b%22%3A1%7D'', js ''y''] 1 2 =
     js ''%7B%22a/b%22%3A1%7D''"
  "spec_candidate [js ''x'', js ''%7B%22a'', js ''b%22%3A1%7D'', js ''y''] 1 3 =
     js ''%7B%22a/b%22%3A1%7D/y''"
  by (simp_all add: spec_candidate_def segment_range_def js_def)

section \<open>Decoding a percent-encoded text\<close>

text \<open>
  \<open>decodeURIComponent\<close> inverts \<open>encodeURIComponent\<close>. An escape sequence decodes to
  the code point of its octets; the octets of a code point are split into their
  six-bit digits to see that they are well formed.
\<close>

lemma hex_val_hex_digit: "d < 16 \<Longrightarrow> hex_val (hex_digit d) = Some d"
  by (auto simp: hex_val_def hex_digit_def is_digit_def)

lemma take_escape_pct: "b < 256 \<Longrightarrow> take_escape (pct b @ r) = Some (b, r)"
  by (simp add: pct_def hex_val_hex_digit less_mult_imp_div_less)

lemma unreserved_not_percent: "is_unreserved c \<Longrightarrow> c \<noteq> ch CHR ''%''"
  by (auto simp: is_unreserved_def is_upper_def is_lower_def is_digit_def js_def)

lemma take_escapes_pct:
  "\<forall>b\<in>set bs. b < 256 \<Longrightarrow> take_escapes (length bs) (concat (map pct bs) @ r) = Some (bs, r)"
  by (induction bs) (simp_all add: take_escape_pct)

lemma take_escape_percent: "take_escape s = Some (b, r) \<Longrightarrow> \<exists>cs. s = ch CHR ''%'' # cs"
  by (induction s rule: take_escape.induct) (auto split: if_splits)

lemma decode_escape:
  assumes "take_escape s = Some (b, r1)"
  shows "decodeURIComponent s =
     (if b < 128 then map_option ((#) b) (decodeURIComponent r1)
      else if b < 192 \<or> 248 \<le> b then None
      else
        (case take_escapes (if b < 224 then 1 else if b < 240 then 2 else 3) r1 of
           None \<Rightarrow> None
         | Some (bs, r2) \<Rightarrow>
             (case utf8_code_point (b # bs) of
                None \<Rightarrow> None
              | Some cp \<Rightarrow> map_option ((@) (utf16_encode cp)) (decodeURIComponent r2))))"
proof -
  obtain cs where s: "s = ch CHR ''%'' # cs"
    using take_escape_percent [OF assms] by blast
  show ?thesis
    unfolding s using assms [unfolded s]
    by (subst decodeURIComponent.simps) (simp del: take_escape.simps)
qed

lemma decode_pct_encode:
  assumes u: "utf8_encode cp = b1 # bs"
    and small: "\<forall>b\<in>set (b1 # bs). b < 256"
    and lead: "192 \<le> b1" "b1 < 248"
    and len: "length bs = (if b1 < 224 then 1 else if b1 < 240 then 2 else 3)"
    and v: "utf8_code_point (b1 # bs) = Some cp"
  shows "decodeURIComponent (pct_encode cp @ r) =
           map_option ((@) (utf16_encode cp)) (decodeURIComponent r)"
proof -
  have e: "pct_encode cp @ r = pct b1 @ concat (map pct bs) @ r"
    by (simp add: pct_encode_def u)
  have t1: "take_escape (pct b1 @ concat (map pct bs) @ r) = Some (b1, concat (map pct bs) @ r)"
    using small by (intro take_escape_pct) simp
  have "take_escapes (length bs) (concat (map pct bs) @ r) = Some (bs, r)"
    using small by (intro take_escapes_pct) simp
  then have t2: "take_escapes (if b1 < 224 then 1 else if b1 < 240 then 2 else 3)
                   (concat (map pct bs) @ r) = Some (bs, r)"
    unfolding len .
  have nb: "\<not> b1 < 128" "\<not> (b1 < 192 \<or> 248 \<le> b1)"
    using lead by simp_all
  show ?thesis
    unfolding e decode_escape [OF t1] if_not_P [OF nb(1)] if_not_P [OF nb(2)] t2
    by (simp add: v)
qed

lemma decode_ascii:
  assumes "c < 128"
  shows "decodeURIComponent (pct_encode c @ r) =
           map_option ((@) (utf16_encode c)) (decodeURIComponent r)"
proof -
  have e: "pct_encode c @ r = pct c @ r"
    using assms by (simp add: pct_encode_def utf8_encode_def)
  have t1: "take_escape (pct c @ r) = Some (c, r)"
    using assms by (intro take_escape_pct) simp
  have "map_option ((#) c) (decodeURIComponent r) =
          map_option ((@) (utf16_encode c)) (decodeURIComponent r)"
    using assms by (cases "decodeURIComponent r") (simp_all add: utf16_encode_def)
  then show ?thesis
    unfolding e decode_escape [OF t1] if_P [OF assms] .
qed

lemma split3:
  fixes c :: nat
  obtains a m l where "c = a * 4096 + m * 64 + l" "m < 64" "l < 64"
    "c div 4096 = a" "c div 64 mod 64 = m" "c mod 64 = l"
proof -
  have "c = (c div 64 div 64 * 64 + c div 64 mod 64) * 64 + c mod 64"
    by (simp only: div_mult_mod_eq)
  moreover have "c div 64 div 64 = c div 4096"
    by (simp add: div_mult2_eq [symmetric])
  ultimately have "c = c div 4096 * 4096 + c div 64 mod 64 * 64 + c mod 64"
    by (simp add: algebra_simps)
  then show ?thesis
    using that [of "c div 4096" "c div 64 mod 64" "c mod 64"] by simp
qed

lemma split4:
  fixes c :: nat
  obtains a h m l where "c = a * 262144 + h * 4096 + m * 64 + l" "h < 64" "m < 64" "l < 64"
    "c div 262144 = a" "c div 4096 mod 64 = h" "c div 64 mod 64 = m" "c mod 64 = l"
proof -
  obtain x m l where x: "c = x * 4096 + m * 64 + l" "m < 64" "l < 64"
    "c div 4096 = x" "c div 64 mod 64 = m" "c mod 64 = l"
    by (rule split3)
  have "x = x div 64 * 64 + x mod 64"
    by simp
  moreover have "x div 64 = c div 262144"
    unfolding x(4) [symmetric] by (simp add: div_mult2_eq [symmetric])
  ultimately have "x = c div 262144 * 64 + x mod 64"
    by simp
  then have "c = (c div 262144 * 64 + x mod 64) * 4096 + m * 64 + l"
    using x(1) by simp
  then have "c = c div 262144 * 262144 + x mod 64 * 4096 + m * 64 + l"
    by (simp add: algebra_simps)
  then show ?thesis
    using that [of "c div 262144" "x mod 64" m l] x by simp
qed

lemma mod_parts:
  fixes a :: nat
  shows "a < 16 \<Longrightarrow> (224 + a) mod 16 = a" "a < 8 \<Longrightarrow> (240 + a) mod 8 = a"
    "a < 64 \<Longrightarrow> (128 + a) mod 64 = a" "a < 32 \<Longrightarrow> (192 + a) mod 32 = a"
proof -
  have "(224 + a) mod 16 = (14 * 16 + a) mod 16" "(240 + a) mod 8 = (30 * 8 + a) mod 8"
    "(128 + a) mod 64 = (2 * 64 + a) mod 64" "(192 + a) mod 32 = (6 * 32 + a) mod 32"
    by simp_all
  then show "a < 16 \<Longrightarrow> (224 + a) mod 16 = a" "a < 8 \<Longrightarrow> (240 + a) mod 8 = a"
    "a < 64 \<Longrightarrow> (128 + a) mod 64 = a" "a < 32 \<Longrightarrow> (192 + a) mod 32 = a"
    by (simp_all only: mod_mult_self3 mod_less)
qed

lemma decode_two:
  assumes "128 \<le> c" "c < 2048"
  shows "decodeURIComponent (pct_encode c @ r) =
           map_option ((@) (utf16_encode c)) (decodeURIComponent r)"
proof (rule decode_pct_encode)
  let ?a = "c div 64" and ?l = "c mod 64"
  have a: "2 \<le> ?a" "?a < 32"
    using assms by simp_all
  show "utf8_encode c = [192 + ?a, 128 + ?l]"
    using assms by (simp add: utf8_encode_def)
  show "\<forall>b\<in>set [192 + ?a, 128 + ?l]. b < 256"
    using a by simp
  show "192 \<le> 192 + ?a" "192 + ?a < 248"
    using a by simp_all
  show "length [128 + ?l] = (if 192 + ?a < 224 then 1 else if 192 + ?a < 240 then 2 else 3)"
    using a by simp
  have "(192 + ?a) mod 32 = ?a" "(128 + ?l) mod 64 = ?l"
    using a by (simp_all add: mod_parts)
  then show "utf8_code_point [192 + ?a, 128 + ?l] = Some c"
    using a by (simp add: is_cont_def)
qed

lemma decode_three:
  assumes "2048 \<le> c" "c < 65536" "c < 55296 \<or> 57343 < c"
  shows "decodeURIComponent (pct_encode c @ r) =
           map_option ((@) (utf16_encode c)) (decodeURIComponent r)"
proof (rule decode_pct_encode)
  obtain a m l where s: "c = a * 4096 + m * 64 + l" "m < 64" "l < 64"
    "c div 4096 = a" "c div 64 mod 64 = m" "c mod 64 = l"
    by (rule split3)
  have a: "a < 16"
    using s(1) assms(2) by linarith
  show u: "utf8_encode c = [224 + c div 4096, 128 + c div 64 mod 64, 128 + c mod 64]"
    using assms by (simp add: utf8_encode_def)
  show "\<forall>b\<in>set [224 + c div 4096, 128 + c div 64 mod 64, 128 + c mod 64]. b < 256"
    unfolding s(4,5,6) using a s(2,3) by simp
  show "192 \<le> 224 + c div 4096" "224 + c div 4096 < 248"
    unfolding s(4) using a by simp_all
  show "length [128 + c div 64 mod 64, 128 + c mod 64] =
          (if 224 + c div 4096 < 224 then 1 else if 224 + c div 4096 < 240 then 2 else 3)"
    unfolding s(4) using a by simp
  have lo: "a = 0 \<Longrightarrow> 32 \<le> m"
    using s(1,3) assms(1) by simp
  have hi: "a = 13 \<Longrightarrow> m < 32"
    using s(1,2,3) assms(3) by simp
  have v: "(a * 64 + m) * 64 + l = c"
    using s(1) by simp
  have "utf8_code_point [224 + a, 128 + m, 128 + l] = Some c"
    using a s(2,3) lo hi v by (auto simp: is_cont_def mod_parts)
  then show "utf8_code_point [224 + c div 4096, 128 + c div 64 mod 64, 128 + c mod 64] = Some c"
    unfolding s(4,5,6) .
qed

lemma decode_four:
  assumes "65536 \<le> cp" "cp < 1114112"
  shows "decodeURIComponent (pct_encode cp @ r) =
           map_option ((@) (utf16_encode cp)) (decodeURIComponent r)"
proof (rule decode_pct_encode)
  obtain a h m l where s: "cp = a * 262144 + h * 4096 + m * 64 + l" "h < 64" "m < 64" "l < 64"
    "cp div 262144 = a" "cp div 4096 mod 64 = h" "cp div 64 mod 64 = m" "cp mod 64 = l"
    by (rule split4)
  have a: "a < 5"
    using s(1) assms(2) by linarith
  show "utf8_encode cp =
          [240 + cp div 262144, 128 + cp div 4096 mod 64, 128 + cp div 64 mod 64, 128 + cp mod 64]"
    using assms by (simp add: utf8_encode_def)
  show "\<forall>b\<in>set [240 + cp div 262144, 128 + cp div 4096 mod 64, 128 + cp div 64 mod 64,
                  128 + cp mod 64]. b < 256"
    unfolding s(5,6,7,8) using a s(2,3,4) by simp
  show "192 \<le> 240 + cp div 262144" "240 + cp div 262144 < 248"
    unfolding s(5) using a by simp_all
  show "length [128 + cp div 4096 mod 64, 128 + cp div 64 mod 64, 128 + cp mod 64] =
          (if 240 + cp div 262144 < 224 then 1 else if 240 + cp div 262144 < 240 then 2 else 3)"
    by simp
  have lo: "a = 0 \<Longrightarrow> 16 \<le> h"
    using s(1,3,4) assms(1) by simp
  have hi: "a = 4 \<Longrightarrow> h < 16"
    using s(1) assms(2) by simp
  have a8: "a < 8"
    using a by simp
  have v: "((a * 64 + h) * 64 + m) * 64 + l = cp"
    using s(1) by simp
  have "utf8_code_point [240 + a, 128 + h, 128 + m, 128 + l] = Some cp"
    using a a8 s(2,3,4) lo hi v by (auto simp: is_cont_def mod_parts)
  then show "utf8_code_point [240 + cp div 262144, 128 + cp div 4096 mod 64,
               128 + cp div 64 mod 64, 128 + cp mod 64] = Some cp"
    unfolding s(5,6,7,8) .
qed

lemma surrogate_pair:
  assumes "55296 \<le> c" "c \<le> 56319" "56320 \<le> d" "d \<le> 57343"
  shows "utf16_encode (65536 + (c - 55296) * 1024 + (d - 56320)) = [c, d]"
    and "65536 \<le> 65536 + (c - 55296) * 1024 + (d - 56320)"
    and "65536 + (c - 55296) * 1024 + (d - 56320) < 1114112"
proof -
  let ?x = "c - 55296" and ?y = "d - 56320"
  have y: "?y < 1024" and x: "?x < 1024"
    using assms by simp_all
  have "(?x * 1024 + ?y) div 1024 = ?x" "(?x * 1024 + ?y) mod 1024 = ?y"
    using y by simp_all
  moreover have "65536 + ?x * 1024 + ?y - 65536 = ?x * 1024 + ?y"
    by simp
  ultimately show "utf16_encode (65536 + ?x * 1024 + ?y) = [c, d]"
    using assms by (simp add: utf16_encode_def)
  show "65536 \<le> 65536 + ?x * 1024 + ?y"
    by simp
  show "65536 + ?x * 1024 + ?y < 1114112"
    using x y by linarith
qed

lemma decode_encode:
  "encodeURIComponent t = Some s \<Longrightarrow> \<forall>c\<in>set t. c < 65536 \<Longrightarrow> decodeURIComponent s = Some t"
proof (induction t arbitrary: s rule: encodeURIComponent.induct)
  case 1
  then show ?case by simp
next
  case (2 c cs)
  show ?case
  proof (cases "is_unreserved c")
    case True
    with "2.prems" obtain s' where s': "encodeURIComponent cs = Some s'" "s = c # s'"
      by auto
    have "decodeURIComponent s' = Some cs"
      using "2.IH"(1) [OF True s'(1)] "2.prems"(2) by simp
    then show ?thesis
      using unreserved_not_percent [OF True] s'(2) by simp
  next
    case False
    note nu = False
    show ?thesis
    proof (cases "55296 \<le> c \<and> c \<le> 56319")
      case True
      with nu "2.prems" obtain d cs' s' where
        d: "cs = d # cs'" "56320 \<le> d" "d \<le> 57343"
          "encodeURIComponent cs' = Some s'"
          "s = pct_encode (65536 + (c - 55296) * 1024 + (d - 56320)) @ s'"
        by (auto split: list.splits if_splits)
      have "decodeURIComponent s' = Some cs'"
        using "2.IH"(2) [OF nu True d(1) _ d(4)] d(2,3) "2.prems"(2) d(1) by simp
      moreover note sp = surrogate_pair [of c d]
      ultimately show ?thesis
        using d True by (simp add: decode_four sp)
    next
      case False
      with nu "2.prems" obtain s' where
        s': "\<not> (56320 \<le> c \<and> c \<le> 57343)" "encodeURIComponent cs = Some s'"
          "s = pct_encode c @ s'"
        by (auto split: if_splits)
      have ih: "decodeURIComponent s' = Some cs"
        using "2.IH"(3) [OF nu False s'(1) s'(2)] "2.prems"(2) by simp
      have c: "c < 65536"
        using "2.prems"(2) by simp
      then have u: "utf16_encode c = [c]"
        by (simp add: utf16_encode_def)
      have ns: "c < 55296 \<or> 57343 < c"
        using False s'(1) by linarith
      consider "c < 128" | "128 \<le> c" "c < 2048" | "2048 \<le> c"
        by linarith
      then have "decodeURIComponent (pct_encode c @ s') =
                   map_option ((@) (utf16_encode c)) (decodeURIComponent s')"
        using c ns by cases (simp_all add: decode_ascii decode_two decode_three)
      then show ?thesis
        using ih s'(3) u by simp
    qed
  qed
qed

section \<open>Worked paths\<close>

lemma JSON_parse_empty: "JSON_parse [] = None"
  by (simp add: JSON_parse_def)

lemma root_parts:
  "path_parts (js ''/'') = []" "path_parts (js ''/index.html'') = [js ''index.html'']"
  by (simp_all add: path_defs)

lemma index_not_start: "\<not> is_start (js ''index.html'')"
  by (simp add: start_defs)

lemma find_start_append:
  "\<forall>p\<in>set pre. \<not> is_start p \<Longrightarrow> is_start s
   \<Longrightarrow> find_start (pre @ s # post) i = int (i + length pre)"
  by (induction pre arbitrary: i) auto

text \<open>A padded object is its own percent-decoding, and parses to the empty object.\<close>

lemma decodeURIComponent_plain:
  "ch CHR ''%'' \<notin> set s \<Longrightarrow> decodeURIComponent s = Some s"
  by (induction s) auto

lemma json_lex_spaces: "json_lex (replicate n 32 @ r) = json_lex r"
  by (induction n) (simp_all add: is_json_space_def)

lemma padded_object_parse: "JSON_parse (padded_object n) = Some (JObj [])"
  by (simp add: padded_object_def JSON_parse_def js_def json_lex_spaces is_json_space_def)

lemma padded_object_length: "length (padded_object n) = n + 2"
  by (simp add: padded_object_def js_def)

lemma padded_object_tryParseJson:
  "tryParseJson (padded_object n) = Parsed (JObj []) (padded_object n)"
proof -
  have "ch CHR ''%'' \<notin> set (padded_object n)"
    by (auto simp: padded_object_def js_def)
  then have "decodeURIComponent (padded_object n) = Some (padded_object n)"
    by (rule decodeURIComponent_plain)
  moreover have "padded_object n \<noteq> []"
    by (simp add: padded_object_def js_def)
  ultimately have "attempt_percent (padded_object n) = Parsed (JObj []) (padded_object n)"
    by (simp add: attempt_percent_def safeDecodeURIComponent_def parse_decoded_def parseJson_def
        padded_object_parse)
  then show ?thesis
    by (simp add: tryParseJson_eval)
qed

lemma padded_object_accumulations: "accumulations [] [padded_object n] = [] @ padded_object n # []"
  by (simp add: Let_def)

text \<open>The path \<open>/x/%7B%22a%22%3A1%7D\<close>: the percent-encoding of \<open>{"a":1}\<close>, after a plain segment.\<close>

lemma a1_parts: "path_parts (js ''/x/%7B%22a%22%3A1%7D'') = [js ''x'', js ''%7B%22a%22%3A1%7D'']"
  by (simp add: path_defs)

lemma a1_start: "is_start (js ''%7B%22a%22%3A1%7D'')"
  by (simp add: start_defs)

lemma a1_decode: "decodeURIComponent (js ''%7B%22a%22%3A1%7D'') = Some (js ''{\"a\":1}'')"
  by (simp add: eval_defs)

lemma a1_encode: "encodeURIComponent (js ''{\"a\":1}'') = Some (js ''%7B%22a%22%3A1%7D'')"
  by (simp add: js_def is_unreserved_def is_upper_def is_lower_def is_digit_def pct_encode_def
      utf8_encode_def pct_def hex_digit_def)

lemma a1_parse: "JSON_parse (js ''{\"a\":1}'') = Some (JObj [(js ''a'', JNum 1)])"
  by (simp add: eval_defs)

text \<open>
  The path \<open>/%7B/%7B%7D\<close>: its second segment is the percent-encoding of \<open>{}\<close>, but
  the scan starts at the first one.
\<close>

lemma early_parts: "path_parts (js ''/%7B/%7B%7D'') = [js ''%7B'', js ''%7B%7D'']"
  by (simp add: path_defs)

lemma early_start: "is_start (js ''%7B'')"
  by (simp add: start_defs)

lemma early_joins: "js ''%7B'' @ 47 # js ''%7B%7D'' = js ''%7B/%7B%7D''" "js ''%7B'' \<noteq> []"
  by (simp_all add: js_def)

lemma early_first: "tryParseJson (js ''%7B'') = Failed"
  unfolding tryParseJson_eval by (simp add: eval_defs)

lemma early_second: "tryParseJson (js ''%7B/%7B%7D'') = Failed"
  unfolding tryParseJson_eval by (simp add: eval_defs)

lemma early_decode: "decodeURIComponent (js ''%7B%7D'') = Some (js ''{}'')"
  by (simp add: eval_defs)

lemma early_parse: "JSON_parse (js ''{}'') = Some (JObj [])"
  by (simp add: eval_defs)

lemma early_pipeline: "pipeline eng [js ''%7B'', js ''%7B%7D''] = Inr Exhausted"
  by (simp add: pipeline_def pipeline_trace_def early_start Let_def early_joins early_first
      early_second Exhausted_def json_error_body)

text \<open>The example of the README: the hex text of \<open>{"client_name":"testing"}\<close>.\<close>

lemma hex_parts:
  "path_parts (js ''/7b22636c69656e745f6e616d65223a2274657374696e67227d/client.json'') =
     [js ''7b22636c69656e745f6e616d65223a2274657374696e67227d'', js ''client.json'']"
  by (simp add: path_defs)

lemma hex_start: "is_start (js ''7b22636c69656e745f6e616d65223a2274657374696e67227d'')"
  by (simp add: start_defs)

lemma hex_percent:
  "attempt_percent (js ''7b22636c69656e745f6e616d65223a2274657374696e67227d'') = Failed"
  by (simp add: eval_defs)

lemma hex_raw:
  "attempt_raw (js ''7b22636c69656e745f6e616d65223a2274657374696e67227d'') = Failed"
  by (simp add: eval_defs)

lemma hex_b64url:
  "attempt_b64url (js ''7b22636c69656e745f6e616d65223a2274657374696e67227d'') = Failed"
  by (simp add: eval_defs)

lemma hex_b64std:
  "attempt_b64std (js ''7b22636c69656e745f6e616d65223a2274657374696e67227d'') = Failed"
  by (simp add: eval_defs)

lemma hex_base32:
  "attempt_base32 (js ''7b22636c69656e745f6e616d65223a2274657374696e67227d'') = Failed"
  by (simp add: eval_defs)

lemma hex_hex:
  "attempt_hex (js ''7b22636c69656e745f6e616d65223a2274657374696e67227d'') =
     Parsed (JObj [(js ''client_name'', JStr (js ''testing''))])
       (js ''{\"client_name\":\"testing\"}'')"
  by (simp add: eval_defs)

lemma hex_length: "length (js ''{\"client_name\":\"testing\"}'') = 25"
  by (simp add: js_def)

text \<open>The path \<open>/%7B%7D\<close>, and two variants of the root.\<close>

lemma empty_object: "tryParseJson (js ''%7B%7D'') = Parsed (JObj []) (js ''{}'')"
  unfolding tryParseJson_eval by (simp add: eval_defs)

lemma empty_object_parts: "path_parts (js ''/%7B%7D'') = [js ''%7B%7D'']"
  by (simp add: path_defs)

lemma empty_object_pipeline: "pipeline eng [js ''%7B%7D''] = Inr (Success (JObj []))"
proof -
  have "is_start (js ''%7B%7D'')"
    by (simp add: start_defs)
  moreover have "length (js ''{}'') \<le> 64000"
    by (simp add: js_def)
  ultimately show ?thesis
    by (simp add: pipeline_def pipeline_trace_def Let_def empty_object json_object
        stringify_raises_def)
qed

lemma variant_parts:
  "path_parts (js ''/index.html/'') = [js ''index.html'']" "path_parts (js ''//'') = []"
  by (simp_all add: path_defs)

text \<open>
  Arrays nested deep: the tokens of \<open>n\<close> brackets, the machine on \<open>n + 1\<close> opening
  and \<open>n + 1\<close> closing brackets, and from there the path \<open>/\<close> \<open>deep_segment n\<close>.
\<close>

lemma json_lex_open:
  "json_lex (replicate n 91 @ r) = map_option ((@) (replicate n TLBracket)) (json_lex r)"
  by (induction n) (simp_all add: is_json_space_def map_option_case split: option.splits)

lemma json_lex_close:
  "json_lex (replicate n 93 @ r) = map_option ((@) (replicate n TRBracket)) (json_lex r)"
  by (induction n) (simp_all add: is_json_space_def map_option_case split: option.splits)

lemma parse_open:
  "parse_tokens (PValueOrEnd, FArray [] # st) (replicate n TLBracket @ ts) =
   parse_tokens (PValueOrEnd, FArray [] # replicate n (FArray []) @ st) ts"
proof (induction n arbitrary: st)
  case 0
  then show ?case by simp
next
  case (Suc n)
  then show ?case
    using Suc.IH [of "FArray [] # st"] by (simp add: replicate_app_Cons_same)
qed

lemma parse_close:
  "parse_tokens (PAfter, FArray [nested k] # replicate n (FArray []) @ st)
     (replicate (Suc n) TRBracket @ ts) =
   (case push_value (nested (Suc (n + k))) st of
      None \<Rightarrow> None
    | Some c \<Rightarrow> parse_tokens c ts)"
proof (induction n arbitrary: k)
  case 0
  then show ?case by simp
next
  case (Suc n)
  then show ?case
    using Suc.IH [of "Suc k"] by simp
qed

lemma parse_nested:
  "parse_tokens (PValue, st) (replicate (Suc n) TLBracket @ replicate (Suc n) TRBracket @ ts) =
     (case push_value (nested n) st of None \<Rightarrow> None | Some c \<Rightarrow> parse_tokens c ts)"
proof -
  have "parse_tokens (PValue, st) (replicate (Suc n) TLBracket @ replicate (Suc n) TRBracket @ ts) =
        parse_tokens (PValueOrEnd, FArray [] # st)
          (replicate n TLBracket @ replicate (Suc n) TRBracket @ ts)"
    by simp
  also have "\<dots> = parse_tokens (PValueOrEnd, FArray [] # replicate n (FArray []) @ st)
          (replicate (Suc n) TRBracket @ ts)"
    by (rule parse_open)
  also have "\<dots> = (case push_value (nested n) st of None \<Rightarrow> None | Some c \<Rightarrow> parse_tokens c ts)"
  proof (cases n)
    case 0
    then show ?thesis by simp
  next
    case (Suc m)
    then show ?thesis
      using parse_close [of 0 m st ts] by simp
  qed
  finally show ?thesis .
qed

lemma deep_text_parse: "JSON_parse (deep_text n) = Some (deep_value n)"
proof -
  have "json_lex (deep_text n) =
          Some ([TLBrace, TString (js ''a''), TColon]
                @ replicate (Suc n) TLBracket @ replicate (Suc n) TRBracket @ [TRBrace])"
    unfolding deep_text_def
    by (simp add: js_def json_lex_open json_lex_close is_json_space_def del: replicate_Suc)
  then show ?thesis
    by (simp add: JSON_parse_def parse_nested deep_value_def obj_put_def js_def del: replicate_Suc)
qed

lemma deep_text_length: "length (deep_text n) = 2 * n + 8"
  by (simp add: deep_text_def js_def)

lemma nesting_nested: "nesting (nested n) = Suc n"
  by (induction n) simp_all

lemma nesting_deep_value: "nesting (deep_value n) = n + 2"
  by (simp add: deep_value_def nesting_nested)

lemma decodeURIComponent_plain_append:
  "ch CHR ''%'' \<notin> set s \<Longrightarrow>
   decodeURIComponent (s @ r) = map_option ((@) s) (decodeURIComponent r)"
  by (induction s) (simp_all add: map_option_case split: option.splits)

lemma deep_segment_decode: "decodeURIComponent (deep_segment n) = Some (deep_text n)"
proof -
  have "decodeURIComponent (js ''%7D'') = Some (js ''}'')"
    by (simp add: js_def hex_val_def is_digit_def)
  then have "decodeURIComponent
               ((replicate (Suc n) (ch CHR ''['') @ replicate (Suc n) (ch CHR '']'')) @ js ''%7D'') =
             Some ((replicate (Suc n) (ch CHR ''['') @ replicate (Suc n) (ch CHR '']'')) @ js ''}'')"
    by (subst decodeURIComponent_plain_append) auto
  then show ?thesis
    unfolding deep_segment_def deep_text_def
    by (simp add: js_def hex_val_def is_digit_def del: replicate_Suc)
qed

lemma deep_segment_tryParseJson:
  "tryParseJson (deep_segment n) = Parsed (deep_value n) (deep_text n)"
proof -
  have "deep_text n \<noteq> []"
    by (simp add: deep_text_def js_def)
  then have "attempt_percent (deep_segment n) = Parsed (deep_value n) (deep_text n)"
    by (simp add: attempt_percent_def safeDecodeURIComponent_def parse_decoded_def parseJson_def
        deep_segment_decode deep_text_parse deep_value_def)
  then show ?thesis
    by (simp add: tryParseJson_eval)
qed

lemma split_slash_plain: "ch CHR ''/'' \<notin> set s \<Longrightarrow> split_slash s = [s]"
  by (induction s) (auto simp: is_slash_def)

lemma dropWhile_rev_plain:
  "ch CHR ''/'' \<notin> set s \<Longrightarrow> dropWhile is_slash s = s"
  by (cases s) (auto simp: is_slash_def)

lemma path_parts_single:
  assumes "ch CHR ''/'' \<notin> set s" and "s \<noteq> []"
  shows "path_parts (ch CHR ''/'' # s) = [s]"
proof -
  have "ch CHR ''/'' \<notin> set (rev s)"
    using assms(1) by simp
  then have "dropWhile is_slash (rev s) = rev s"
    by (rule dropWhile_rev_plain)
  then have "trim_slashes (ch CHR ''/'' # s) = s"
    using dropWhile_rev_plain [OF assms(1)] by (simp add: trim_slashes_def is_slash_def)
  then show ?thesis
    using assms by (simp add: path_parts_def split_slash_plain)
qed

lemma deep_segment_plain: "ch CHR ''/'' \<notin> set (deep_segment n)" "deep_segment n \<noteq> []"
  by (auto simp: deep_segment_def js_def)

lemma deep_segment_start: "is_start (deep_segment n)"
  by (simp add: deep_segment_def is_start_def START_PREFIXES_def startsWith_def toLowerCase_def
      js_def Let_def is_upper_def del: replicate_Suc)

text \<open>
  The candidate \<open>eyJhIjoiPj4+In0=\<close>: the standard base64 text of \<open>{"a":">>>"}\<close>, with
  its padding. The first three attempts fail on it and the fourth parses it.
\<close>

lemma padded_percent: "attempt_percent (js ''eyJhIjoiPj4+In0='') = Failed"
  by (simp add: eval_defs)

lemma padded_raw: "attempt_raw (js ''eyJhIjoiPj4+In0='') = Failed"
  by (simp add: eval_defs)

lemma padded_b64url: "attempt_b64url (js ''eyJhIjoiPj4+In0='') = Failed"
  by (simp add: eval_defs)

lemma padded_b64std:
  "attempt_b64std (js ''eyJhIjoiPj4+In0='') =
     Parsed (JObj [(js ''a'', JStr (js ''>>>''))]) (js ''{\"a\":\">>>\"}'')"
  by (simp add: eval_defs)

lemma padded_strip: "stripNonB64Std (js ''eyJhIjoiPj4+In0='') = js ''eyJhIjoiPj4+In0=''"
  by (simp add: stripNonB64Std_def is_upper_def is_lower_def is_digit_def js_def)

section \<open>The order of the decoders\<close>

text \<open>
  The candidate \<open>{"eyJhIjoxfQ":1}\<close> is JSON as it stands, and its letters and digits
  are the base64 text of \<open>{"a":1}\<close> followed by a carriage return.
\<close>

lemma both_percent:
  "attempt_percent (js ''{\"eyJhIjoxfQ\":1}'') =
     Parsed (JObj [(js ''eyJhIjoxfQ'', JNum 1)]) (js ''{\"eyJhIjoxfQ\":1}'')"
  by (simp add: eval_defs)

lemma both_b64url:
  "attempt_b64url (js ''{\"eyJhIjoxfQ\":1}'') =
     Parsed (JObj [(js ''a'', JNum 1)]) (js ''{\"a\":1}'' @ [13])"
  by (simp add: eval_defs)

lemma both_b64std:
  "attempt_b64std (js ''{\"eyJhIjoxfQ\":1}'') =
     Parsed (JObj [(js ''a'', JNum 1)]) (js ''{\"a\":1}'' @ [13])"
  by (simp add: eval_defs)

text \<open>
  Claim C1. \<open>tryParseJson\<close> holds six attempts, in the order percent-decoding, raw
  JSON, base64url, standard base64, base32, hex. Its loop calls them in that order
  and returns the result of the first one that succeeds, having called no later one
  (the count is the position of that attempt); when none succeeds it has called all
  six and fails. In particular, when percent-decoding succeeds and a base64 decoding
  of the same candidate would succeed too, the result is that of percent-decoding.
\<close>

theorem tryParseJson_first_success:
  "map (\<lambda>f. f ()) (attempts input) =
     [attempt_percent input, attempt_raw input, attempt_b64url input,
      attempt_b64std input, attempt_base32 input, attempt_hex input]
   \<and> run_attempts (attempts input) =
     (if ok (attempt_percent input) then (1, attempt_percent input)
      else if ok (attempt_raw input) then (2, attempt_raw input)
      else if ok (attempt_b64url input) then (3, attempt_b64url input)
      else if ok (attempt_b64std input) then (4, attempt_b64std input)
      else if ok (attempt_base32 input) then (5, attempt_base32 input)
      else if ok (attempt_hex input) then (6, attempt_hex input)
      else (6, fail))
   \<and> tryParseJson input = snd (run_attempts (attempts input))
   \<and> (ok (attempt_percent input) \<and> (ok (attempt_b64url input) \<or> ok (attempt_b64std input))
        \<longrightarrow> tryParseJson input = attempt_percent input)"
  by (simp add: attempts_def tryParseJson_def Let_def)

theorem tryParseJson_first_success_witness:
  "ok (attempt_percent (js ''{\"eyJhIjoxfQ\":1}''))
   \<and> ok (attempt_b64url (js ''{\"eyJhIjoxfQ\":1}''))
   \<and> ok (attempt_b64std (js ''{\"eyJhIjoxfQ\":1}''))
   \<and> attempt_b64url (js ''{\"eyJhIjoxfQ\":1}'') \<noteq> attempt_percent (js ''{\"eyJhIjoxfQ\":1}'')
   \<and> tryParseJson (js ''{\"eyJhIjoxfQ\":1}'') =
       Parsed (JObj [(js ''eyJhIjoxfQ'', JNum 1)]) (js ''{\"eyJhIjoxfQ\":1}'')"
proof -
  have 1: "tryParseJson (js ''{\"eyJhIjoxfQ\":1}'') = attempt_percent (js ''{\"eyJhIjoxfQ\":1}'')"
    using tryParseJson_first_success [of "js ''{\"eyJhIjoxfQ\":1}''"]
    by (simp add: both_percent both_b64url)
  have 2: "attempt_b64url (js ''{\"eyJhIjoxfQ\":1}'') \<noteq> attempt_percent (js ''{\"eyJhIjoxfQ\":1}'')"
    unfolding both_percent both_b64url by (simp add: js_def)
  show ?thesis
    using 1 2 by (simp add: both_percent both_b64url both_b64std)
qed

section \<open>Finding the start\<close>

text \<open>
  Claim C2. For every request path, the scan answers \<open>NoCandidateFound\<close> (status 400,
  error "No JSON-like segment found") exactly when no segment of the path, in lower
  case, starts with one of the five prefixes \<open>{\<close>, \<open>%7b\<close>, \<open>7b\<close>, \<open>ey\<close>, \<open>pm\<close>;
  otherwise \<open>startIdx\<close> is the index of the first such segment.
\<close>

theorem no_candidate_iff:
  "(pipeline eng (path_parts p) = Inr NoCandidateFound) = (\<not> list_ex is_start (path_parts p))
   \<and> json eng (error_body ''No JSON-like segment found'') 400 = Inr NoCandidateFound
   \<and> status NoCandidateFound = 400
   \<and> is_start s =
       (\<exists>x \<in> set [js ''{'', js ''%7b'', js ''7b'', js ''ey'', js ''pm'']. prefix x (toLowerCase s))
   \<and> (list_ex is_start (path_parts p) \<longrightarrow>
        (\<exists>i. find_start (path_parts p) 0 = int i \<and> i < length (path_parts p)
           \<and> is_start (path_parts p ! i) \<and> (\<forall>j<i. \<not> is_start (path_parts p ! j))))
   \<and> (\<not> list_ex is_start (path_parts p) \<longrightarrow> find_start (path_parts p) 0 = - 1)
   \<and> ((req_method req = ''GET'' \<or> req_method req = ''HEAD'') \<and> pathname (req_url req) = p
        \<and> p \<noteq> js ''/'' \<and> p \<noteq> js ''/index.html''
       \<longrightarrow> fetch eng req env = pipeline eng (path_parts p))"
proof -
  let ?ps = "path_parts p"
  let ?i = "length (takeWhile (\<lambda>p. \<not> is_start p) ?ps)"
  have c7: "(req_method req = ''GET'' \<or> req_method req = ''HEAD'') \<and> pathname (req_url req) = p
        \<and> p \<noteq> js ''/'' \<and> p \<noteq> js ''/index.html''
       \<longrightarrow> fetch eng req env = pipeline eng ?ps"
    by (auto simp: fetch_def Let_def)
  have c1: "(pipeline eng ?ps = Inr NoCandidateFound) = (\<not> list_ex is_start ?ps)"
    by (simp add: pipeline_cases scan_not_NoCandidateFound)
  have c2: "json eng (error_body ''No JSON-like segment found'') 400 = Inr NoCandidateFound"
    by (simp add: NoCandidateFound_def json_error_body)
  have c3: "status NoCandidateFound = 400"
    by (simp add: status_outcomes)
  have c5: "list_ex is_start ?ps \<longrightarrow>
        (\<exists>i. find_start ?ps 0 = int i \<and> i < length ?ps
           \<and> is_start (?ps ! i) \<and> (\<forall>j<i. \<not> is_start (?ps ! j)))"
  proof
    assume ex: "list_ex is_start ?ps"
    have lt: "?i < length ?ps"
      using ex by (simp add: list_ex_iff takeWhile_shorter)
    have at: "is_start (?ps ! ?i)"
      using nth_length_takeWhile [OF lt] by simp
    have before: "\<not> is_start (?ps ! j)" if "j < ?i" for j
    proof -
      have "takeWhile (\<lambda>p. \<not> is_start p) ?ps ! j \<in> set (takeWhile (\<lambda>p. \<not> is_start p) ?ps)"
        using that by simp
      then have "\<not> is_start (takeWhile (\<lambda>p. \<not> is_start p) ?ps ! j)"
        by (rule set_takeWhileD [THEN conjunct2])
      then show ?thesis
        using that by (simp add: takeWhile_nth)
    qed
    have "find_start ?ps 0 = int ?i"
      using ex by (simp add: find_start_takeWhile)
    then show "\<exists>i. find_start ?ps 0 = int i \<and> i < length ?ps
           \<and> is_start (?ps ! i) \<and> (\<forall>j<i. \<not> is_start (?ps ! j))"
      using lt at before by blast
  qed
  have c6: "\<not> list_ex is_start ?ps \<longrightarrow> find_start ?ps 0 = - 1"
    by (simp add: find_start_takeWhile)
  show ?thesis
    by (intro conjI c1 c2 c3 c5 c6 c7 is_start_prefixes)
qed

theorem no_candidate_iff_witness:
  "list_ex is_start (path_parts (js ''/x/%7B%22a/b%22%3A1%7D/y''))
   \<and> find_start (path_parts (js ''/x/%7B%22a/b%22%3A1%7D/y'')) 0 = 1
   \<and> pipeline (\<lambda>v. True) (path_parts (js ''/x/%7B%22a/b%22%3A1%7D/y'')) \<noteq> Inr NoCandidateFound
   \<and> \<not> list_ex is_start (path_parts (js ''/not-json-at-all''))
   \<and> find_start (path_parts (js ''/not-json-at-all'')) 0 = - 1
   \<and> pipeline (\<lambda>v. True) (path_parts (js ''/not-json-at-all'')) = Inr NoCandidateFound
   \<and> fetch (\<lambda>v. True)
        \<lparr>req_method = ''GET'',
         req_url = \<lparr>origin = [], pathname = js ''/not-json-at-all'', search = []\<rparr>,
         req_headers = []\<rparr> () = Inr NoCandidateFound"
proof -
  let ?P = "js ''/x/%7B%22a/b%22%3A1%7D/y''"
  let ?Q = "js ''/not-json-at-all''"
  let ?e = "\<lambda>v :: jvalue. True"
  let ?r = "\<lparr>req_method = ''GET'', req_url = \<lparr>origin = [], pathname = ?Q, search = []\<rparr>,
              req_headers = []\<rparr>"
  have ex: "list_ex is_start (path_parts ?P)"
    unfolding split_parts by (simp add: split_starts)
  have nex: "\<not> list_ex is_start (path_parts ?Q)"
    unfolding plain_parts by (simp add: plain_start)
  from ex no_candidate_iff [of ?e ?P "[]" ?r "()"] obtain i where
    i: "find_start (path_parts ?P) 0 = int i" "is_start (path_parts ?P ! i)"
      "\<forall>j<i. \<not> is_start (path_parts ?P ! j)"
    by blast
  have "i \<noteq> 0"
  proof
    assume "i = 0"
    with i(2) have "is_start (js ''x'')"
      unfolding split_parts by simp
    then show False
      by (simp add: split_starts)
  qed
  moreover have "\<not> 1 < i"
  proof
    assume "1 < i"
    with i(3) have "\<not> is_start (path_parts ?P ! 1)"
      by blast
    then show False
      unfolding split_parts by (simp add: split_starts)
  qed
  ultimately have "i = 1" by simp
  then have 1: "find_start (path_parts ?P) 0 = 1"
    using i(1) by simp
  have 2: "pipeline ?e (path_parts ?P) \<noteq> Inr NoCandidateFound"
    using ex no_candidate_iff [of ?e ?P "[]" ?r "()"] by blast
  note Q = no_candidate_iff [of ?e ?Q "[]" ?r "()"]
  have 3: "find_start (path_parts ?Q) 0 = - 1"
    using nex Q by blast
  have 4: "pipeline ?e (path_parts ?Q) = Inr NoCandidateFound"
    using nex Q by blast
  have "?Q \<noteq> js ''/''" "?Q \<noteq> js ''/index.html''"
    by (simp_all add: js_def)
  moreover have "req_method ?r = ''GET''" "pathname (req_url ?r) = ?Q"
    by simp_all
  ultimately have "fetch ?e ?r () = pipeline ?e (path_parts ?Q)"
    using Q by blast
  then have 5: "fetch ?e ?r () = Inr NoCandidateFound"
    using 4 by simp
  show ?thesis
    by (intro conjI ex nex 1 2 3 4 5)
qed

section \<open>The JSON validator\<close>

text \<open>
  Claim C3. \<open>parseJson\<close> succeeds exactly when the text parses as JSON and the
  value is an object or an array; a syntax error fails, and so does a text that
  parses to null, a boolean, a number or a string: \<open>42\<close> and \<open>"hello"\<close> are rejected.
\<close>

theorem parseJson_object_or_array:
  "parseJson text raw =
     (case JSON_parse text of
        None \<Rightarrow> Failed
      | Some JNull \<Rightarrow> Failed
      | Some (JBool b) \<Rightarrow> Failed
      | Some (JNum q) \<Rightarrow> Failed
      | Some (JStr s) \<Rightarrow> Failed
      | Some (JArr vs) \<Rightarrow> Parsed (JArr vs) raw
      | Some (JObj kvs) \<Rightarrow> Parsed (JObj kvs) raw)
   \<and> ok (parseJson text raw) =
       (\<exists>v. JSON_parse text = Some v \<and> ((\<exists>kvs. v = JObj kvs) \<or> (\<exists>vs. v = JArr vs)))
   \<and> JSON_parse (js ''42'') = Some (JNum 42)
   \<and> parseJson (js ''42'') (js ''42'') = Failed
   \<and> JSON_parse (js ''\"hello\"'') = Some (JStr (js ''hello''))
   \<and> parseJson (js ''\"hello\"'') (js ''\"hello\"'') = Failed"
proof -
  have a: "parseJson t r =
     (case JSON_parse t of
        None \<Rightarrow> Failed
      | Some JNull \<Rightarrow> Failed
      | Some (JBool b) \<Rightarrow> Failed
      | Some (JNum q) \<Rightarrow> Failed
      | Some (JStr s) \<Rightarrow> Failed
      | Some (JArr vs) \<Rightarrow> Parsed (JArr vs) r
      | Some (JObj kvs) \<Rightarrow> Parsed (JObj kvs) r)" for t r
    by (simp add: parseJson_def fail_def split: option.splits jvalue.splits)
  have b: "ok (parseJson text raw) =
       (\<exists>v. JSON_parse text = Some v \<and> ((\<exists>kvs. v = JObj kvs) \<or> (\<exists>vs. v = JArr vs)))"
    by (auto simp: a split: option.splits jvalue.splits)
  have c: "JSON_parse (js ''42'') = Some (JNum 42)"
    by (simp add: eval_defs)
  have d: "JSON_parse (js ''\"hello\"'') = Some (JStr (js ''hello''))"
    by (simp add: eval_defs)
  show ?thesis
    by (intro conjI a b c d) (simp_all add: a c d)
qed

section \<open>The size ceiling\<close>

text \<open>
  When a candidate parses, every earlier candidate having failed, the scan stops
  there: it has examined the candidates up to that one and no later one. When the
  decoded text has more than 64000 code units the response is \<open>PayloadTooLarge\<close>;
  when it has at most 64000, the parsed value goes to \<open>json\<close>.
\<close>

lemma scan_first_success:
  assumes "accumulations acc ps = pre @ c # post"
    and "\<forall>x\<in>set pre. \<not> ok (tryParseJson x)"
    and "tryParseJson c = Parsed v raw"
  shows "scan eng acc ps =
           (pre @ [c], if length raw \<le> 64000 then json eng v 200 else Inr PayloadTooLarge)"
proof -
  have okc: "ok (tryParseJson c)"
    using assms(3) by simp
  have "fst (scan eng acc ps) = pre @ [c]"
    using assms(1,2) okc by (simp add: scan_trace examined_upto_first)
  moreover have "snd (scan eng acc ps) =
      (if length raw \<le> 64000 then json eng v 200 else Inr PayloadTooLarge)"
    using assms okc by (simp add: scan_result scan_outcome_def find_first)
  ultimately show ?thesis
    by (simp add: prod_eq_iff)
qed

text \<open>
  A payload split over two segments, and the empty object padded to exactly 64000
  and to 64001 code units.
\<close>

lemma scan_first_success_examples:
  "scan eng [] [js ''%7B%22a'', js ''b%22%3A1%7D'', js ''y''] =
     ([js ''%7B%22a'', js ''%7B%22a/b%22%3A1%7D''], Inr (Success (JObj [(js ''a/b'', JNum 1)])))"
  "length (padded_object 63998) = 64000"
  "scan eng [] [padded_object 63998] = ([padded_object 63998], Inr (Success (JObj [])))"
  "length (padded_object 63999) = 64001"
  "scan eng [] [padded_object 63999] = ([padded_object 63999], Inr PayloadTooLarge)"
proof -
  have a: "accumulations [] [js ''%7B%22a'', js ''b%22%3A1%7D'', js ''y''] =
     [js ''%7B%22a''] @ js ''%7B%22a/b%22%3A1%7D'' # [js ''%7B%22a/b%22%3A1%7D/y'']"
    unfolding split_accumulations by simp
  have b: "\<forall>x\<in>set [js ''%7B%22a'']. \<not> ok (tryParseJson x)"
    by (simp add: split_first)
  have len: "length (js ''{\"a/b\":1}'') \<le> 64000"
    by (simp add: js_def)
  have "scan eng [] [js ''%7B%22a'', js ''b%22%3A1%7D'', js ''y''] =
       ([js ''%7B%22a''] @ [js ''%7B%22a/b%22%3A1%7D''],
        if length (js ''{\"a/b\":1}'') \<le> 64000 then json eng (JObj [(js ''a/b'', JNum 1)]) 200
        else Inr PayloadTooLarge)"
    by (rule scan_first_success [OF a b split_second])
  then show "scan eng [] [js ''%7B%22a'', js ''b%22%3A1%7D'', js ''y''] =
     ([js ''%7B%22a'', js ''%7B%22a/b%22%3A1%7D''], Inr (Success (JObj [(js ''a/b'', JNum 1)])))"
    unfolding if_P [OF len] by (simp add: json_object stringify_raises_def)
  have e: "\<forall>x\<in>set []. \<not> ok (tryParseJson x)"
    by simp
  have B: "scan eng [] [padded_object n] =
       ([] @ [padded_object n],
        if length (padded_object n) \<le> 64000 then json eng (JObj []) 200
        else Inr PayloadTooLarge)" for n
    by (rule scan_first_success [OF padded_object_accumulations e padded_object_tryParseJson])
  show "length (padded_object 63998) = 64000" "length (padded_object 63999) = 64001"
    by (simp_all add: padded_object_length)
  show "scan eng [] [padded_object 63998] = ([padded_object 63998], Inr (Success (JObj [])))"
    using B [of 63998] by (simp add: padded_object_length json_object stringify_raises_def)
  show "scan eng [] [padded_object 63999] = ([padded_object 63999], Inr PayloadTooLarge)"
    using B [of 63999] by (simp add: padded_object_length)
qed

text \<open>
  A parsed value nested deep, under the ceiling: the response is the value on an
  engine that serialises it, and the handler throws on an engine that does not.
\<close>

lemma deep_fetch:
  assumes "req_method req = ''GET'' \<or> req_method req = ''HEAD''"
    and "pathname (req_url req) = ch CHR ''/'' # deep_segment n"
    and "2 * n + 8 \<le> 64000"
  shows "fetch eng req env =
           (if eng (deep_value n) then Inl RangeError else Inr (Success (deep_value n)))"
proof -
  let ?P = "pathname (req_url req)"
  have ps: "path_parts ?P = [deep_segment n]"
    unfolding assms(2) by (rule path_parts_single [OF deep_segment_plain])
  have "?P \<noteq> js ''/''" "?P \<noteq> js ''/index.html''"
    unfolding assms(2) by (simp_all add: js_def deep_segment_def)
  then have "fetch eng req env = pipeline eng [deep_segment n]"
    using assms(1) ps by (auto simp: fetch_def Let_def)
  also have "\<dots> = json eng (deep_value n) 200"
    using assms(3)
    by (simp add: pipeline_def pipeline_trace_def deep_segment_start Let_def
        deep_segment_tryParseJson deep_text_length)
  also have "\<dots> = (if eng (deep_value n) then Inl RangeError else Inr (Success (deep_value n)))"
    by (simp add: deep_value_def json_object stringify_raises_def nesting_nested)
  finally show ?thesis .
qed

text \<open>
  Claim C4, at a value nested deep. The path \<open>/%7B%22a%22:\<close> followed by 7000
  \<open>[\<close>, 7000 \<open>]\<close> and \<open>%7D\<close> holds the percent-encoding of \<open>{"a":[[...]]}\<close>. The first
  attempt parses it; the decoded text has 14006 code units, under the ceiling of
  64000; the scan stops there and hands the parsed value, nested 7001 deep, to
  \<open>json\<close>. On an engine whose \<open>JSON.stringify\<close> throws on that value the handler
  throws a RangeError and returns no response, where the claim has the parsed value
  returned as a success; on any other engine the response is the value, with
  status 200.
\<close>

theorem deep_value_raises:
  "tryParseJson (deep_segment 6999) = Parsed (deep_value 6999) (deep_text 6999)
   \<and> length (deep_text 6999) = 14006
   \<and> nesting (deep_value 6999) = 7001
   \<and> fetch eng
        \<lparr>req_method = ''GET'',
         req_url = \<lparr>origin = og, pathname = ch CHR ''/'' # deep_segment 6999, search = q\<rparr>,
         req_headers = hs\<rparr> env =
       (if eng (deep_value 6999) then Inl RangeError else Inr (Success (deep_value 6999)))"
proof -
  have "fetch eng
        \<lparr>req_method = ''GET'',
         req_url = \<lparr>origin = og, pathname = ch CHR ''/'' # deep_segment 6999, search = q\<rparr>,
         req_headers = hs\<rparr> env =
       (if eng (deep_value 6999) then Inl RangeError else Inr (Success (deep_value 6999)))"
    by (rule deep_fetch) simp_all
  then show ?thesis
    by (simp add: deep_segment_tryParseJson deep_text_length nesting_deep_value)
qed

section \<open>A percent-encoded object in the path\<close>

text \<open>
  Claim C5, as the code has it. When the first segment of a path that carries a
  start prefix is the percent-encoding of the JSON text of an object, that text has
  at most 64000 code units, and \<open>JSON.stringify\<close> does not throw on the object, a
  GET or HEAD request for the path is answered with status 200 and exactly that
  object. A segment is the percent-encoding of a text when it percent-decodes to the
  text, as every result of \<open>encodeURIComponent\<close> does (lemma \<open>decode_encode\<close>); a
  text is the JSON text of an object when \<open>JSON.parse\<close> reads it as that object.
\<close>

theorem percent_encoded_object_found:
  assumes "req_method req = ''GET'' \<or> req_method req = ''HEAD''"
    and "path_parts (pathname (req_url req)) = pre @ s # post"
    and "\<forall>p\<in>set pre. \<not> is_start p"
    and "is_start s"
    and "decodeURIComponent s = Some t"
    and "JSON_parse t = Some (JObj kvs)"
    and "length t \<le> 64000"
    and "\<not> stringify_raises eng (JObj kvs)"
  shows "fetch eng req env = Inr (Success (JObj kvs))
       \<and> status (Success (JObj kvs)) = 200
       \<and> body (Success (JObj kvs)) = Stringified (JObj kvs)"
proof -
  let ?P = "pathname (req_url req)"
  have t: "t \<noteq> []"
    using assms(6) JSON_parse_empty by auto
  have "attempt_percent s = Parsed (JObj kvs) t"
    using assms(5,6) t
    by (simp add: attempt_percent_def safeDecodeURIComponent_def parse_decoded_def parseJson_def)
  then have p: "tryParseJson s = Parsed (JObj kvs) t"
    by (simp add: tryParseJson_eval)
  have "?P \<noteq> js ''/''"
    using assms(2) root_parts(1) by auto
  moreover have "?P \<noteq> js ''/index.html''"
  proof
    assume "?P = js ''/index.html''"
    with assms(2) have "[js ''index.html''] = pre @ s # post"
      by (simp add: root_parts)
    then have "s = js ''index.html''"
      by (cases pre) auto
    with assms(4) index_not_start show False
      by simp
  qed
  ultimately have f: "fetch eng req env = pipeline eng (path_parts ?P)"
    using assms(1) by (auto simp: fetch_def Let_def)
  have "find_start (path_parts ?P) 0 = int (length pre)"
    using find_start_append [OF assms(3,4), of post 0] assms(2) by simp
  then have "pipeline eng (path_parts ?P) = snd (scan eng [] (s # post))"
    using assms(2) by (simp add: pipeline_def pipeline_trace_def Let_def)
  also have "\<dots> = Inr (Success (JObj kvs))"
    using p assms(7,8) by (simp add: Let_def json_object)
  finally have "fetch eng req env = Inr (Success (JObj kvs))"
    using f by simp
  then show ?thesis
    by (simp add: Success_def json_response_def)
qed

theorem percent_encoded_object_found_witness:
  "path_parts (js ''/x/%7B%22a%22%3A1%7D'') = [js ''x''] @ js ''%7B%22a%22%3A1%7D'' # []
   \<and> \<not> is_start (js ''x'')
   \<and> is_start (js ''%7B%22a%22%3A1%7D'')
   \<and> encodeURIComponent (js ''{\"a\":1}'') = Some (js ''%7B%22a%22%3A1%7D'')
   \<and> decodeURIComponent (js ''%7B%22a%22%3A1%7D'') = Some (js ''{\"a\":1}'')
   \<and> JSON_parse (js ''{\"a\":1}'') = Some (JObj [(js ''a'', JNum 1)])
   \<and> length (js ''{\"a\":1}'') \<le> 64000
   \<and> \<not> stringify_raises (\<lambda>v. True) (JObj [(js ''a'', JNum 1)])
   \<and> fetch (\<lambda>v. True)
        \<lparr>req_method = ''GET'',
         req_url = \<lparr>origin = [], pathname = js ''/x/%7B%22a%22%3A1%7D'', search = []\<rparr>,
         req_headers = []\<rparr> () =
       Inr (Success (JObj [(js ''a'', JNum 1)]))"
proof -
  let ?r = "\<lparr>req_method = ''GET'',
              req_url = \<lparr>origin = [], pathname = js ''/x/%7B%22a%22%3A1%7D'', search = []\<rparr>,
              req_headers = []\<rparr>"
  have m: "req_method ?r = ''GET'' \<or> req_method ?r = ''HEAD''"
    by simp
  have ps: "path_parts (pathname (req_url ?r)) = [js ''x''] @ js ''%7B%22a%22%3A1%7D'' # []"
    by (simp add: a1_parts)
  have pre: "\<forall>p\<in>set [js ''x'']. \<not> is_start p"
    by (simp add: split_starts)
  have len: "length (js ''{\"a\":1}'') \<le> 64000"
    by (simp add: js_def)
  have st: "\<not> stringify_raises (\<lambda>v. True) (JObj [(js ''a'', JNum 1)])"
    by (simp add: stringify_raises_def)
  have "fetch (\<lambda>v. True) ?r () = Inr (Success (JObj [(js ''a'', JNum 1)]))"
    using percent_encoded_object_found [OF m ps pre a1_start a1_decode a1_parse len st]
    by (rule conjunct1)
  moreover have "path_parts (js ''/x/%7B%22a%22%3A1%7D'') = [js ''x''] @ js ''%7B%22a%22%3A1%7D'' # []"
    unfolding a1_parts by simp
  ultimately show ?thesis
    using len st by (simp add: split_starts a1_start a1_decode a1_parse a1_encode)
qed

text \<open>
  Claim C5 as stated fails: \<open>/%7B/%7B%7D\<close> contains the segment \<open>%7B%7D\<close>, the
  percent-encoding of the object \<open>{}\<close>, and the response is the 400 of an exhausted
  scan, on an engine that never throws.
\<close>

theorem earlier_segment_hides_object:
  "path_parts (js ''/%7B/%7B%7D'') = [js ''%7B'', js ''%7B%7D'']
   \<and> decodeURIComponent (js ''%7B%7D'') = Some (js ''{}'')
   \<and> JSON_parse (js ''{}'') = Some (JObj [])
   \<and> fetch (\<lambda>v. False)
        \<lparr>req_method = ''GET'',
         req_url = \<lparr>origin = [], pathname = js ''/%7B/%7B%7D'', search = []\<rparr>,
         req_headers = []\<rparr> () = Inr Exhausted
   \<and> status Exhausted = 400
   \<and> Exhausted \<noteq> Success (JObj [])"
proof -
  have "js ''/%7B/%7B%7D'' \<noteq> js ''/''" "js ''/%7B/%7B%7D'' \<noteq> js ''/index.html''"
    by (simp_all add: js_def)
  then have "fetch (\<lambda>v. False)
        \<lparr>req_method = ''GET'',
         req_url = \<lparr>origin = [], pathname = js ''/%7B/%7B%7D'', search = []\<rparr>,
         req_headers = []\<rparr> () = Inr Exhausted"
    by (simp add: fetch_def Let_def early_parts early_pipeline)
  moreover have "status Exhausted = 400" "Exhausted \<noteq> Success (JObj [])"
    by (simp_all add: Exhausted_def Success_def json_response_def)
  ultimately show ?thesis
    by (simp add: early_parts early_decode early_parse)
qed

section \<open>The candidates\<close>

text \<open>
  Claim C6. For a path whose scan starts at segment \<open>s\<close>, the strings accumulated by
  the loop are exactly the slash-joins of the segments \<open>s..e\<close> for \<open>e\<close> from \<open>s\<close> to the
  last index, in this order, and the candidates examined are these, in order, up to
  the first one that parses. The candidate for \<open>e = s\<close> is the segment \<open>s\<close>, and for
  \<open>e \<le> e'\<close> the candidate for \<open>e\<close> is a prefix of the candidate for \<open>e'\<close>, as a list of
  segments and as a string: candidates never shrink.
\<close>

theorem candidates_are_segment_joins:
  assumes "parts = path_parts p" and "find_start parts 0 = int s"
  shows "accumulations [] (drop s parts) = map (spec_candidate parts s) [s..<length parts]
       \<and> fst (pipeline_trace eng parts) = examined_upto (map (spec_candidate parts s) [s..<length parts])
       \<and> prefix (fst (pipeline_trace eng parts)) (map (spec_candidate parts s) [s..<length parts])
       \<and> (list_all (\<lambda>c. \<not> ok (tryParseJson c)) (map (spec_candidate parts s) [s..<length parts])
            \<longrightarrow> fst (pipeline_trace eng parts) = map (spec_candidate parts s) [s..<length parts])
       \<and> spec_candidate parts s s = parts ! s
       \<and> (\<forall>e e'. s \<le> e \<and> e \<le> e' \<and> e' < length parts \<longrightarrow>
            prefix (segment_range parts s e) (segment_range parts s e')
            \<and> prefix (spec_candidate parts s e) (spec_candidate parts s e')
            \<and> length (spec_candidate parts s e) \<le> length (spec_candidate parts s e'))"
proof -
  have s: "s < length parts"
    using assms(2) by (rule find_start_bound)
  have ne: "drop s parts = [] \<or> hd (drop s parts) \<noteq> []"
    using s assms(1) path_parts_nonempty [of "parts ! s" p]
    by (simp add: hd_drop_conv_nth)
  have "[s..<length parts] = map (\<lambda>k. k + s) [0..<length parts - s]"
    using s by (simp add: map_add_upt)
  then have "map (spec_candidate parts s) [s..<length parts] =
          map (\<lambda>k. join_slash (take (Suc k) (drop s parts))) [0..<length parts - s]"
    by (simp add: spec_candidate_def segment_range_def o_def)
  then have c1: "accumulations [] (drop s parts) = map (spec_candidate parts s) [s..<length parts]"
    using accumulations_start [OF ne] by simp
  have tr: "pipeline_trace eng parts = scan eng [] (drop s parts)"
    using assms(2) by (simp add: pipeline_trace_def Let_def)
  have c2: "fst (pipeline_trace eng parts) =
              examined_upto (map (spec_candidate parts s) [s..<length parts])"
    by (simp add: tr scan_trace c1)
  have c3: "prefix (fst (pipeline_trace eng parts)) (map (spec_candidate parts s) [s..<length parts])"
    unfolding c2 by (rule examined_upto_prefix)
  have c3': "list_all (\<lambda>c. \<not> ok (tryParseJson c)) (map (spec_candidate parts s) [s..<length parts])
            \<longrightarrow> fst (pipeline_trace eng parts) = map (spec_candidate parts s) [s..<length parts]"
    unfolding c2 by (rule impI) (rule examined_upto_all)
  have c4: "spec_candidate parts s s = parts ! s"
    using s by (simp add: spec_candidate_def segment_range_def take_Suc_conv_app_nth)
  have c5: "\<forall>e e'. s \<le> e \<and> e \<le> e' \<and> e' < length parts \<longrightarrow>
            prefix (segment_range parts s e) (segment_range parts s e')
            \<and> prefix (spec_candidate parts s e) (spec_candidate parts s e')
            \<and> length (spec_candidate parts s e) \<le> length (spec_candidate parts s e')"
  proof (intro allI impI)
    fix e e'
    assume "s \<le> e \<and> e \<le> e' \<and> e' < length parts"
    then have "prefix (segment_range parts s e) (segment_range parts s e')"
      unfolding segment_range_def by (intro take_prefix_take) arith
    then have "prefix (spec_candidate parts s e) (spec_candidate parts s e')"
      unfolding spec_candidate_def by (rule join_slash_prefix)
    then show "prefix (segment_range parts s e) (segment_range parts s e')
            \<and> prefix (spec_candidate parts s e) (spec_candidate parts s e')
            \<and> length (spec_candidate parts s e) \<le> length (spec_candidate parts s e')"
      using \<open>prefix (segment_range parts s e) (segment_range parts s e')\<close>
      by (simp add: prefix_length_le)
  qed
  show ?thesis
    by (intro conjI c1 c2 c3 c3' c4 c5)
qed

theorem candidates_are_segment_joins_witness:
  "find_start (path_parts (js ''/x/%7B%22a/b%22%3A1%7D/y'')) 0 = int 1
   \<and> map (spec_candidate (path_parts (js ''/x/%7B%22a/b%22%3A1%7D/y'')) 1)
         [1..<length (path_parts (js ''/x/%7B%22a/b%22%3A1%7D/y''))] =
       [js ''%7B%22a'', js ''%7B%22a/b%22%3A1%7D'', js ''%7B%22a/b%22%3A1%7D/y'']
   \<and> fst (pipeline_trace (\<lambda>v. True) (path_parts (js ''/x/%7B%22a/b%22%3A1%7D/y''))) =
       [js ''%7B%22a'', js ''%7B%22a/b%22%3A1%7D'']
   \<and> prefix (js ''%7B%22a'') (js ''%7B%22a/b%22%3A1%7D'')
   \<and> prefix (js ''%7B%22a/b%22%3A1%7D'') (js ''%7B%22a/b%22%3A1%7D/y'')"
proof -
  let ?ps = "path_parts (js ''/x/%7B%22a/b%22%3A1%7D/y'')"
  have st: "find_start ?ps 0 = int 1"
    unfolding split_parts by (simp add: split_starts)
  note T = candidates_are_segment_joins [OF refl st, of "\<lambda>v. True"]
  have d: "drop 1 ?ps = [js ''%7B%22a'', js ''b%22%3A1%7D'', js ''y'']"
    unfolding split_parts by simp
  have m: "map (spec_candidate ?ps 1) [1..<length ?ps] =
       [js ''%7B%22a'', js ''%7B%22a/b%22%3A1%7D'', js ''%7B%22a/b%22%3A1%7D/y'']"
    by (simp only: T [THEN conjunct1, symmetric] d split_accumulations)
  have "fst (pipeline_trace (\<lambda>v. True) ?ps) =
          examined_upto [js ''%7B%22a'', js ''%7B%22a/b%22%3A1%7D'', js ''%7B%22a/b%22%3A1%7D/y'']"
    using T [THEN conjunct2, THEN conjunct1] unfolding m .
  then have tr: "fst (pipeline_trace (\<lambda>v. True) ?ps) = [js ''%7B%22a'', js ''%7B%22a/b%22%3A1%7D'']"
    by (simp add: split_first split_second)
  have len: "length ?ps = 4"
    unfolding split_parts by simp
  have mono: "prefix (spec_candidate ?ps 1 e) (spec_candidate ?ps 1 e')"
    if "1 \<le> e \<and> e \<le> e' \<and> e' < length ?ps" for e e'
    using T [THEN conjunct2, THEN conjunct2, THEN conjunct2, THEN conjunct2, THEN conjunct2] that
    by blast
  have p1: "prefix (js ''%7B%22a'') (js ''%7B%22a/b%22%3A1%7D'')"
    using mono [of 1 2] unfolding len unfolding split_parts split_candidates by simp
  have p2: "prefix (js ''%7B%22a/b%22%3A1%7D'') (js ''%7B%22a/b%22%3A1%7D/y'')"
    using mono [of 2 3] unfolding len unfolding split_parts split_candidates by simp
  show ?thesis
    by (intro conjI st m tr p1 p2)
qed

section \<open>The standard base64 attempt\<close>

text \<open>
  Claim C7, as the code has it. The fourth attempt keeps the characters of the
  standard base64 alphabet and the padding sign \<open>=\<close>, and removes every other
  character; the prefix check, the padding and the decoding work on that string.
\<close>

theorem stripNonB64Std_alphabet:
  "stripNonB64Std s = filter (\<lambda>c. is_b64std_char c \<or> c = ch CHR ''='') s
   \<and> list_all (\<lambda>c. is_b64std_char c \<or> c = ch CHR ''='') (stripNonB64Std s)
   \<and> attempt_b64std input =
       (if looksLikeB64Prefix (stripNonB64Std input)
        then parse_decoded (map_option utf8FromBytes (atob (padBase64 (stripNonB64Std input))))
        else fail)"
proof -
  have a: "stripNonB64Std s = filter (\<lambda>c. is_b64std_char c \<or> c = ch CHR ''='') s" for s
    unfolding stripNonB64Std_def is_b64std_char_def
    by (rule filter_cong) auto
  have b: "list_all (\<lambda>c. is_b64std_char c \<or> c = ch CHR ''='') (stripNonB64Std s)"
    unfolding a by (simp add: list_all_iff)
  have c: "attempt_b64std input =
       (if looksLikeB64Prefix (stripNonB64Std input)
        then parse_decoded (map_option utf8FromBytes (atob (padBase64 (stripNonB64Std input))))
        else fail)"
    by (simp add: attempt_b64std_def b64StdToUtf8_def Let_def)
  show ?thesis
    by (intro conjI a b c)
qed

text \<open>
  Claim C7 as stated fails: the padding of \<open>eyJhIjoxfQ==\<close> stays in the cleaned
  string, and \<open>=\<close> is not in the alphabet. So does the padding of
  \<open>eyJhIjoiPj4+In0=\<close>, a candidate that reaches the fourth attempt: the first
  three fail on it, and the fourth decodes the cleaned string, padding included.
\<close>

theorem stripNonB64Std_keeps_padding:
  "\<not> list_all is_b64std_char (stripNonB64Std (js ''eyJhIjoxfQ==''))
   \<and> attempt_percent (js ''eyJhIjoiPj4+In0='') = Failed
   \<and> attempt_raw (js ''eyJhIjoiPj4+In0='') = Failed
   \<and> attempt_b64url (js ''eyJhIjoiPj4+In0='') = Failed
   \<and> run_attempts (attempts (js ''eyJhIjoiPj4+In0='')) =
       (4, Parsed (JObj [(js ''a'', JStr (js ''>>>''))]) (js ''{\"a\":\">>>\"}''))
   \<and> stripNonB64Std (js ''eyJhIjoiPj4+In0='') = js ''eyJhIjoiPj4+In0=''
   \<and> \<not> list_all is_b64std_char (stripNonB64Std (js ''eyJhIjoiPj4+In0=''))"
proof -
  have 1: "\<not> list_all is_b64std_char (stripNonB64Std (js ''eyJhIjoxfQ==''))"
    by (simp add: stripNonB64Std_def is_b64std_char_def is_upper_def is_lower_def is_digit_def js_def)
  have 2: "run_attempts (attempts (js ''eyJhIjoiPj4+In0='')) =
       (4, Parsed (JObj [(js ''a'', JStr (js ''>>>''))]) (js ''{\"a\":\">>>\"}''))"
    by (simp add: attempts_def padded_percent padded_raw padded_b64url padded_b64std)
  have 3: "\<not> list_all is_b64std_char (stripNonB64Std (js ''eyJhIjoiPj4+In0=''))"
    unfolding padded_strip
    by (simp add: is_b64std_char_def is_upper_def is_lower_def is_digit_def js_def)
  show ?thesis
    by (intro conjI 1 2 3 padded_percent padded_raw padded_b64url padded_strip)
qed

section \<open>The hex example\<close>

text \<open>
  Claim C8. For the path \<open>/7b22636c69656e745f6e616d65223a2274657374696e67227d/client.json\<close>
  the response has status 200 and carries exactly the object
  \<open>{"client_name":"testing"}\<close>; the scan examines the first candidate only, on which
  the first five attempts fail and the hex decoder, the sixth, succeeds.
\<close>

theorem hex_example:
  "fetch eng
     \<lparr>req_method = ''GET'',
      req_url = \<lparr>origin = og,
                 pathname = js ''/7b22636c69656e745f6e616d65223a2274657374696e67227d/client.json'',
                 search = q\<rparr>,
      req_headers = hs\<rparr> env =
     Inr (Success (JObj [(js ''client_name'', JStr (js ''testing''))]))
   \<and> json eng (JObj [(js ''client_name'', JStr (js ''testing''))]) 200 =
       Inr (Success (JObj [(js ''client_name'', JStr (js ''testing''))]))
   \<and> status (Success (JObj [(js ''client_name'', JStr (js ''testing''))])) = 200
   \<and> body (Success (JObj [(js ''client_name'', JStr (js ''testing''))])) =
       Stringified (JObj [(js ''client_name'', JStr (js ''testing''))])
   \<and> pipeline_trace eng
        (path_parts (js ''/7b22636c69656e745f6e616d65223a2274657374696e67227d/client.json'')) =
       ([js ''7b22636c69656e745f6e616d65223a2274657374696e67227d''],
        Inr (Success (JObj [(js ''client_name'', JStr (js ''testing''))])))
   \<and> run_attempts (attempts (js ''7b22636c69656e745f6e616d65223a2274657374696e67227d'')) =
       (6, attempt_hex (js ''7b22636c69656e745f6e616d65223a2274657374696e67227d''))
   \<and> attempt_percent (js ''7b22636c69656e745f6e616d65223a2274657374696e67227d'') = Failed
   \<and> attempt_raw (js ''7b22636c69656e745f6e616d65223a2274657374696e67227d'') = Failed
   \<and> attempt_b64url (js ''7b22636c69656e745f6e616d65223a2274657374696e67227d'') = Failed
   \<and> attempt_b64std (js ''7b22636c69656e745f6e616d65223a2274657374696e67227d'') = Failed
   \<and> attempt_base32 (js ''7b22636c69656e745f6e616d65223a2274657374696e67227d'') = Failed
   \<and> attempt_hex (js ''7b22636c69656e745f6e616d65223a2274657374696e67227d'') =
       Parsed (JObj [(js ''client_name'', JStr (js ''testing''))])
         (js ''{\"client_name\":\"testing\"}'')"
proof -
  let ?seg = "js ''7b22636c69656e745f6e616d65223a2274657374696e67227d''"
  let ?P = "js ''/7b22636c69656e745f6e616d65223a2274657374696e67227d/client.json''"
  let ?v = "JObj [(js ''client_name'', JStr (js ''testing''))]"
  have run: "run_attempts (attempts ?seg) = (6, attempt_hex ?seg)"
    by (simp add: attempts_def hex_percent hex_raw hex_b64url hex_b64std hex_base32 hex_hex)
  then have tp: "tryParseJson ?seg = Parsed ?v (js ''{\"client_name\":\"testing\"}'')"
    by (simp add: tryParseJson_def hex_hex)
  have j: "json eng ?v 200 = Inr (Success ?v)"
    by (simp add: json_object stringify_raises_def)
  have tr: "pipeline_trace eng (path_parts ?P) = ([?seg], Inr (Success ?v))"
    unfolding hex_parts
    by (simp add: pipeline_trace_def hex_start Let_def tp hex_length j)
  have "?P \<noteq> js ''/''" "?P \<noteq> js ''/index.html''"
    by (simp_all add: js_def)
  then have f: "fetch eng \<lparr>req_method = ''GET'',
          req_url = \<lparr>origin = og, pathname = ?P, search = q\<rparr>,
          req_headers = hs\<rparr> env = Inr (Success ?v)"
    by (simp add: fetch_def Let_def pipeline_def tr)
  have st: "status (Success ?v) = 200" "body (Success ?v) = Stringified ?v"
    by (simp_all add: Success_def json_response_def)
  show ?thesis
    by (intro conjI f j st tr run hex_percent hex_raw hex_b64url hex_b64std hex_base32 hex_hex)
qed

section \<open>The landing page\<close>

text \<open>
  Claim C10. The landing page is the response exactly for a GET or HEAD request whose
  pathname is \<open>/\<close> or \<open>/index.html\<close>. Any other pathname goes through the scan, and
  when none of its segments carries a start prefix, as for \<open>/index.html/\<close> and \<open>//\<close>,
  the response is the 400 "No JSON-like segment found".
\<close>

theorem landing_page_only_for_root:
  "(fetch eng req env = Inr landing_page) =
     ((req_method req = ''GET'' \<or> req_method req = ''HEAD'')
      \<and> (pathname (req_url req) = js ''/'' \<or> pathname (req_url req) = js ''/index.html''))
   \<and> ((req_method req = ''GET'' \<or> req_method req = ''HEAD'')
        \<and> pathname (req_url req) \<noteq> js ''/'' \<and> pathname (req_url req) \<noteq> js ''/index.html''
        \<and> \<not> list_ex is_start (path_parts (pathname (req_url req)))
       \<longrightarrow> fetch eng req env = Inr NoCandidateFound \<and> status NoCandidateFound = 400)"
proof -
  have o: "\<lparr>status = 200, headers = corsHeaders, body = NoBody\<rparr> \<noteq> landing_page"
    by (simp add: landing_page_def html_def)
  have a: "(fetch eng req env = Inr landing_page) =
     ((req_method req = ''GET'' \<or> req_method req = ''HEAD'')
      \<and> (pathname (req_url req) = js ''/'' \<or> pathname (req_url req) = js ''/index.html''))"
    using o by (auto simp: fetch_def Let_def json_not_landing pipeline_not_landing)
  have b: "(req_method req = ''GET'' \<or> req_method req = ''HEAD'')
        \<and> pathname (req_url req) \<noteq> js ''/'' \<and> pathname (req_url req) \<noteq> js ''/index.html''
        \<and> \<not> list_ex is_start (path_parts (pathname (req_url req)))
       \<longrightarrow> fetch eng req env = Inr NoCandidateFound \<and> status NoCandidateFound = 400"
    by (auto simp: fetch_def Let_def pipeline_cases status_outcomes)
  show ?thesis
    by (intro conjI a b)
qed

theorem landing_page_only_for_root_witness:
  "fetch (\<lambda>v. True)
     \<lparr>req_method = ''GET'', req_url = \<lparr>origin = [], pathname = js ''/index.html/'', search = []\<rparr>,
      req_headers = []\<rparr> () = Inr NoCandidateFound
   \<and> fetch (\<lambda>v. True)
       \<lparr>req_method = ''GET'', req_url = \<lparr>origin = [], pathname = js ''//'', search = []\<rparr>,
        req_headers = []\<rparr> () = Inr NoCandidateFound
   \<and> NoCandidateFound \<noteq> landing_page
   \<and> fetch (\<lambda>v. True)
       \<lparr>req_method = ''GET'', req_url = \<lparr>origin = [], pathname = js ''/'', search = []\<rparr>,
        req_headers = []\<rparr> () = Inr landing_page
   \<and> fetch (\<lambda>v. True)
       \<lparr>req_method = ''HEAD'', req_url = \<lparr>origin = [], pathname = js ''/index.html'', search = []\<rparr>,
        req_headers = []\<rparr> () = Inr landing_page"
proof -
  let ?e = "\<lambda>v :: jvalue. True"
  let ?r = "\<lambda>m p. \<lparr>req_method = m, req_url = \<lparr>origin = [], pathname = js p, search = []\<rparr>,
          req_headers = []\<rparr>"
  have ne: "js ''/index.html/'' \<noteq> js ''/''" "js ''/index.html/'' \<noteq> js ''/index.html''"
    "js ''//'' \<noteq> js ''/''" "js ''//'' \<noteq> js ''/index.html''"
    by (simp_all add: js_def)
  have 1: "fetch ?e (?r ''GET'' ''/index.html/'') () = Inr NoCandidateFound"
    using landing_page_only_for_root [of ?e "?r ''GET'' ''/index.html/''" "()"] ne
    by (simp add: variant_parts index_not_start)
  have 2: "fetch ?e (?r ''GET'' ''//'') () = Inr NoCandidateFound"
    using landing_page_only_for_root [of ?e "?r ''GET'' ''//''" "()"] ne
    by (simp add: variant_parts)
  have 3: "fetch ?e (?r ''GET'' ''/'') () = Inr landing_page"
    using landing_page_only_for_root [of ?e "?r ''GET'' ''/''" "()"] by simp
  have 4: "fetch ?e (?r ''HEAD'' ''/index.html'') () = Inr landing_page"
    using landing_page_only_for_root [of ?e "?r ''HEAD'' ''/index.html''" "()"] by simp
  have 5: "NoCandidateFound \<noteq> landing_page"
    by (simp add: NoCandidateFound_def json_response_def landing_page_def)
  show ?thesis
    using 1 2 3 4 5 by simp
qed

end
